theory Spec2Isabelle
  imports Main
begin

section \<open>JavaScript values and strings\<close>

text \<open>
  The scanners (\<^verbatim>\<open>scripts/scanTroves.js\<close>, \<^verbatim>\<open>scripts/scanStabilityPool.js\<close>) work on
  JavaScript numbers and strings. Block numbers, log indices and delays are modelled as
  unbounded integers, which agree with JavaScript's doubles below \<open>2^53\<close>; strings are
  \<open>string\<close>, with the ASCII range of JavaScript's case mapping and white space.
\<close>

datatype js_value =
    JUndefined
  | JInt int          \<comment> \<open>a number for which \<^verbatim>\<open>Number.isInteger\<close> holds\<close>
  | JNonInt           \<comment> \<open>any other number: a fraction, NaN, an infinity\<close>
  | JString string
  | JOther            \<comment> \<open>null, a bigint, a boolean, an object\<close>

datatype js_error = Error (message: string)

definition isSpace :: "char \<Rightarrow> bool" where
  "isSpace c = (c \<in> set [CHR 0x09, CHR 0x0A, CHR 0x0B, CHR 0x0C, CHR 0x0D, CHR '' ''])"

definition isDigit :: "char \<Rightarrow> bool" where
  "isDigit c = (c \<in> set ''0123456789'')"

definition lowerChar :: "char \<Rightarrow> char" where
  "lowerChar c =
     (case map_of (zip ''ABCDEFGHIJKLMNOPQRSTUVWXYZ'' ''abcdefghijklmnopqrstuvwxyz'') c of
        Some d \<Rightarrow> d
      | None \<Rightarrow> c)"

definition toLowerCase :: "string \<Rightarrow> string" where
  "toLowerCase s = map lowerChar s"

fun startsWith :: "string \<Rightarrow> string \<Rightarrow> bool" where
  "startsWith s [] = True"
| "startsWith [] (p # ps) = False"
| "startsWith (c # cs) (p # ps) = (c = p \<and> startsWith cs ps)"

fun includes_str :: "string \<Rightarrow> string \<Rightarrow> bool" where
  "includes_str [] needle = (needle = [])"
| "includes_str (c # cs) needle = (startsWith (c # cs) needle \<or> includes_str cs needle)"

text \<open>The value of a digit in a radix up to 36, as \<^verbatim>\<open>parseInt\<close> reads it.\<close>

definition digitValue :: "char \<Rightarrow> nat option" where
  "digitValue c =
     map_of (zip ''0123456789abcdefghijklmnopqrstuvwxyz'' [0 ..< 36]) (lowerChar c)"

definition isRadixDigit :: "nat \<Rightarrow> char \<Rightarrow> bool" where
  "isRadixDigit radix c = (case digitValue c of Some v \<Rightarrow> v < radix | None \<Rightarrow> False)"

definition digitsValue :: "nat \<Rightarrow> string \<Rightarrow> nat" where
  "digitsValue radix ds = foldl (\<lambda>n c. radix * n + (case digitValue c of Some v \<Rightarrow> v | None \<Rightarrow> 0)) 0 ds"

text \<open>
  A double is finite below \<open>2^1024 - 2^970\<close>: from there on the conversion of an integer
  literal rounds to \<^verbatim>\<open>Infinity\<close>, which neither \<^verbatim>\<open>Number.isFinite\<close> nor
  \<^verbatim>\<open>Number.isInteger\<close> accepts.
\<close>

definition js_finite :: "nat \<Rightarrow> bool" where
  "js_finite n = (n < 2 ^ 1024 - 2 ^ 970)"

text \<open>
  \<^verbatim>\<open>Number.parseInt(s, radix)\<close> for radix 10 and 16: leading white space, an optional
  sign, for radix 16 an optional \<^verbatim>\<open>0x\<close>, then the longest run of digits of the radix;
  \<open>None\<close> is NaN.
\<close>

definition parseInt :: "string \<Rightarrow> nat \<Rightarrow> int option" where
  "parseInt s radix =
     (let s1 = dropWhile isSpace s;
          neg = startsWith s1 ''-'';
          s2 = (if startsWith s1 ''-'' \<or> startsWith s1 ''+'' then drop 1 s1 else s1);
          s3 = (if radix = 16 \<and> (startsWith s2 ''0x'' \<or> startsWith s2 ''0X'')
                then drop 2 s2 else s2);
          ds = takeWhile (isRadixDigit radix) s3
      in if ds = [] then None
         else Some ((if neg then - 1 else 1) * int (digitsValue radix ds)))"

section \<open>Log fetcher: error classification and retry\<close>

text \<open>
  \<^verbatim>\<open>msg.match(/retry in\s+(\d+)\s*s/i)\<close>: \<open>match_retry_at\<close> matches the pattern at the
  start of a string and returns the captured digits; \<open>match_retry\<close> finds the leftmost
  match. Each quantifier can only succeed on its longest run, so no backtracking is needed.
\<close>

definition match_retry_at :: "string \<Rightarrow> string option" where
  "match_retry_at s =
     (if toLowerCase (take 8 s) = ''retry in'' then
        (let r1 = drop 8 s;
             ws = takeWhile isSpace r1;
             r2 = dropWhile isSpace r1;
             ds = takeWhile isDigit r2;
             r3 = dropWhile isSpace (dropWhile isDigit r2)
         in if ws \<noteq> [] \<and> ds \<noteq> [] \<and> startsWith (toLowerCase (take 1 r3)) ''s''
            then Some ds else None)
      else None)"

fun match_retry :: "string \<Rightarrow> string option" where
  "match_retry [] = None"
| "match_retry (c # cs) =
     (case match_retry_at (c # cs) of
        Some ds \<Rightarrow> Some ds
      | None \<Rightarrow> match_retry cs)"

definition parseRetryAfterMs :: "js_error \<Rightarrow> int option" where
  "parseRetryAfterMs err =
     (case match_retry (message err) of
        None \<Rightarrow> None
      | Some m \<Rightarrow>
          (let sec = digitsValue 10 m
           in if js_finite sec \<and> sec > 0 then Some (int sec * 1000) else None))"

definition isRateLimitError :: "js_error \<Rightarrow> bool" where
  "isRateLimitError err =
     (let msg = toLowerCase (message err)
      in includes_str msg ''rate limit'' \<or> includes_str msg ''too many requests''
         \<or> includes_str msg ''-32090'')"

text \<open>The local \<^verbatim>\<open>shouldRetry\<close> of \<^verbatim>\<open>getLogsWithRetry\<close>.\<close>

definition shouldRetry :: "js_error \<Rightarrow> bool" where
  "shouldRetry err = (isRateLimitError err \<or> parseRetryAfterMs err \<noteq> None)"

text \<open>
  The provider's log record, with the fields the scanners read. The block number is the
  integer of the provider's log type, so the guard \<^verbatim>\<open>Number.isInteger(bn)\<close> of the
  resolver always holds; the two index fields, the transaction hash and the topics are
  as loose as the guards of the decoder take them to be.
\<close>

record raw_log =
  index :: js_value
  logIndex :: js_value
  blockNumber :: int
  transactionHash :: "string option"
  topics :: "string list option"

record log_filter =
  filter_address :: string
  fromBlock :: int
  toBlock :: int
  filter_topics :: "string list list"

datatype block_result =
    BlockThrows js_error       \<comment> \<open>the lookup rejects\<close>
  | BlockNull                  \<comment> \<open>no such block\<close>
  | Block (timestamp: "int option")   \<comment> \<open>\<open>None\<close>: the timestamp is not an integer\<close>

text \<open>
  Everything outside the program: the provider's three operations, the two library
  functions that can throw (\<^verbatim>\<open>ethers.getAddress\<close> and \<^verbatim>\<open>BigInt(t).toString()\<close>) and
  SQLite's clock. An answer of the provider may depend on when it is asked: the \<open>nat\<close>
  is the number of \<^verbatim>\<open>getLogs\<close> calls made before.
\<close>

record env =
  getBlockNumber :: "js_error + int"
  getLogs :: "nat \<Rightarrow> log_filter \<Rightarrow> js_error + raw_log list"
  getBlock :: "nat \<Rightarrow> int \<Rightarrow> block_result"
  getAddress :: "string \<Rightarrow> js_error + string"
  BigInt_toString :: "string \<Rightarrow> js_error + string"
  datetime_now :: "nat \<Rightarrow> string"

text \<open>What the program did to the outside, in order: the trace of a run.\<close>

record world =
  getLogs_calls :: "log_filter list"
  sleeps :: "int list"
  getBlock_calls :: "int list"

definition sleep :: "int \<Rightarrow> world \<Rightarrow> world" where
  "sleep ms w = w\<lparr>sleeps := sleeps w @ [ms]\<rparr>"

definition call_getLogs :: "env \<Rightarrow> log_filter \<Rightarrow> world \<Rightarrow> (js_error + raw_log list) \<times> world" where
  "call_getLogs env flt w =
     (getLogs env (length (getLogs_calls w)) flt,
      w\<lparr>getLogs_calls := getLogs_calls w @ [flt]\<rparr>)"

datatype fetch_result =
    Ok (logs: "raw_log list")     \<comment> \<open>\<^verbatim>\<open>{ ok: true, logs }\<close>\<close>
  | Failed (error: js_error)      \<comment> \<open>\<^verbatim>\<open>{ ok: false, error }\<close>\<close>

text \<open>
  The \<^verbatim>\<open>while (attempt < maxAttempts)\<close> loop of \<^verbatim>\<open>getLogsWithRetry\<close>, with its two
  variables \<open>attempt\<close> and \<open>backoffMs\<close>. \<open>maxAttempts\<close> is a count; both callers leave it
  at its default, 6.
\<close>

function getLogsWithRetry_loop ::
  "env \<Rightarrow> log_filter \<Rightarrow> nat \<Rightarrow> nat \<Rightarrow> int \<Rightarrow> world \<Rightarrow> fetch_result \<times> world" where
  "getLogsWithRetry_loop env flt maxAttempts attempt backoffMs w =
     (if attempt < maxAttempts then
        (case call_getLogs env flt w of
           (Inr lgs, w1) \<Rightarrow> (Ok lgs, w1)
         | (Inl err, w1) \<Rightarrow>
             (let retryAfter = parseRetryAfterMs err
              in if \<not> shouldRetry err \<or> Suc attempt \<ge> maxAttempts then (Failed err, w1)
                 else getLogsWithRetry_loop env flt maxAttempts (Suc attempt)
                        (min (backoffMs * 2) 10000)
                        (sleep (case retryAfter of Some ms \<Rightarrow> ms | None \<Rightarrow> backoffMs) w1)))
      else (Failed (Error ''exhausted retries''), w))"
  by pat_completeness auto
termination
  by (relation "measure (\<lambda>(env, flt, maxAttempts, attempt, backoffMs, w). maxAttempts - attempt)")
     auto

declare getLogsWithRetry_loop.simps [simp del]

definition getLogsWithRetry :: "env \<Rightarrow> log_filter \<Rightarrow> nat \<Rightarrow> world \<Rightarrow> fetch_result \<times> world" where
  "getLogsWithRetry env flt maxAttempts w = getLogsWithRetry_loop env flt maxAttempts 0 750 w"

text \<open>
  The value of \<open>backoffMs\<close> after \<open>i\<close> retryable failures: 750 at first, then
  \<^verbatim>\<open>Math.min(backoffMs * 2, 10000)\<close> each time; and the time slept after the failure
  with number \<open>i\<close>, \<^verbatim>\<open>retryAfter ?? backoffMs\<close>.
\<close>

primrec backoff_at :: "nat \<Rightarrow> int" where
  "backoff_at 0 = 750"
| "backoff_at (Suc i) = min (backoff_at i * 2) 10000"

definition wait_after :: "js_error \<Rightarrow> nat \<Rightarrow> int" where
  "wait_after err i = (case parseRetryAfterMs err of Some ms \<Rightarrow> ms | None \<Rightarrow> backoff_at i)"

section \<open>Decoder\<close>

text \<open>
  \<^verbatim>\<open>getStableLogIndex\<close>. \<open>nonNegInteger v\<close> is the test
  \<^verbatim>\<open>Number.isInteger(v) && v >= 0\<close> together with the value it lets through.
\<close>

definition nonNegInteger :: "js_value \<Rightarrow> int option" where
  "nonNegInteger v = (case v of JInt i \<Rightarrow> if i \<ge> 0 then Some i else None | _ \<Rightarrow> None)"

definition getStableLogIndex :: "raw_log \<Rightarrow> int option" where
  "getStableLogIndex lg =
     (case nonNegInteger (index lg) of
        Some i \<Rightarrow> Some i
      | None \<Rightarrow>
          (case logIndex lg of
             JString li \<Rightarrow>
               (case (if startsWith li ''0x'' then parseInt li 16 else parseInt li 10) of
                  Some n \<Rightarrow> if js_finite (nat \<bar>n\<bar>) \<and> n \<ge> 0 then Some n else None
                | None \<Rightarrow> None)
           | li \<Rightarrow> nonNegInteger li))"

text \<open>
  \<^verbatim>\<open>resolveBlockTimestamps\<close>. The first loop collects the block numbers of the batch,
  each once, in order of first appearance. The lookups of \<^verbatim>\<open>Promise.all\<close> are all
  started; when one of them rejects the \<^verbatim>\<open>await\<close> throws and no map is returned.
\<close>

definition uniqueBlocks :: "raw_log list \<Rightarrow> int list" where
  "uniqueBlocks lgs =
     fold (\<lambda>lg seen. if blockNumber lg \<in> set seen then seen else seen @ [blockNumber lg]) lgs []"

definition set_timestamp :: "int \<times> block_result \<Rightarrow> (int \<rightharpoonup> int) \<Rightarrow> (int \<rightharpoonup> int)" where
  "set_timestamp p m =
     (case snd p of
        Block (Some ts) \<Rightarrow> m(fst p \<mapsto> ts)
      | _ \<Rightarrow> m)"

definition rejections :: "(int \<times> block_result) list \<Rightarrow> js_error list" where
  "rejections rs = concat (map (\<lambda>p. case snd p of BlockThrows e \<Rightarrow> [e] | _ \<Rightarrow> []) rs)"

definition resolveBlockTimestamps ::
  "env \<Rightarrow> raw_log list \<Rightarrow> world \<Rightarrow> (js_error + (int \<rightharpoonup> int)) \<times> world" where
  "resolveBlockTimestamps env lgs w =
     (let blocks = uniqueBlocks lgs;
          results = map (\<lambda>bn. (bn, getBlock env (length (getLogs_calls w)) bn)) blocks;
          w1 = w\<lparr>getBlock_calls := getBlock_calls w @ blocks\<rparr>
      in case rejections results of
           e # _ \<Rightarrow> (Inl e, w1)
         | [] \<Rightarrow> (Inr (fold set_timestamp results Map.empty), w1))"

text \<open>The decoding loop of \<^verbatim>\<open>scanLoanNftTransfers\<close>, one log at a time.\<close>

record transfer_event =
  ev_blockNumber :: int
  blockTimestamp :: "int option"
  txHash :: string
  ev_logIndex :: int
  fromLower :: string
  toLower :: string
  tokenId :: string
  isBurned :: bool

definition TRANSFER_TOPIC :: string where
  "TRANSFER_TOPIC = ''0xddf252ad1be2c89b69c2b068fc378daa952ba7f163c4a11628f55a4df523b3ef''"

definition BURN_ADDRS :: "string list" where
  "BURN_ADDRS =
     [''0x0000000000000000000000000000000000000000'',
      ''0x000000000000000000000000000000000000dead'']"

definition isBurn :: "string \<Rightarrow> bool" where
  "isBurn addrLower = (addrLower \<in> set BURN_ADDRS)"

definition addressFromTopic :: "env \<Rightarrow> string \<Rightarrow> js_error + string" where
  "addressFromTopic env t = getAddress env (''0x'' @ drop 26 t)"

definition tokenIdFromTopic :: "env \<Rightarrow> string \<Rightarrow> js_error + string" where
  "tokenIdFromTopic env t = BigInt_toString env t"

datatype decode_step =
    Skip                     \<comment> \<open>\<^verbatim>\<open>continue\<close>\<close>
  | Emit transfer_event      \<comment> \<open>\<^verbatim>\<open>events.push(...)\<close>\<close>
  | Raise js_error           \<comment> \<open>an exception nothing catches\<close>

definition decodeTransfer :: "env \<Rightarrow> (int \<rightharpoonup> int) \<Rightarrow> raw_log \<Rightarrow> decode_step" where
  "decodeTransfer env blockTsMap lg =
     (case topics lg of
        None \<Rightarrow> Skip
      | Some ts \<Rightarrow>
          if length ts < 4 then Skip
          else
            (case getStableLogIndex lg of
               None \<Rightarrow> Skip
             | Some li \<Rightarrow>
                 (case transactionHash lg of
                    None \<Rightarrow> Skip
                  | Some tx \<Rightarrow>
                      if tx = [] then Skip
                      else
                        (case addressFromTopic env (ts ! 1) of
                           Inl e \<Rightarrow> Raise e
                         | Inr from \<Rightarrow>
                             (case addressFromTopic env (ts ! 2) of
                                Inl e \<Rightarrow> Raise e
                              | Inr to \<Rightarrow>
                                  (case tokenIdFromTopic env (ts ! 3) of
                                     Inl e \<Rightarrow> Raise e
                                   | Inr tid \<Rightarrow>
                                       Emit \<lparr>ev_blockNumber = blockNumber lg,
                                             blockTimestamp = blockTsMap (blockNumber lg),
                                             txHash = tx,
                                             ev_logIndex = li,
                                             fromLower = toLowerCase from,
                                             toLower = toLowerCase to,
                                             tokenId = tid,
                                             isBurned = isBurn (toLowerCase to)\<rparr>))))))"

fun decodeTransfers :: "env \<Rightarrow> (int \<rightharpoonup> int) \<Rightarrow> raw_log list \<Rightarrow> js_error + transfer_event list" where
  "decodeTransfers env blockTsMap [] = Inr []"
| "decodeTransfers env blockTsMap (lg # rest) =
     (case decodeTransfer env blockTsMap lg of
        Skip \<Rightarrow> decodeTransfers env blockTsMap rest
      | Raise e \<Rightarrow> Inl e
      | Emit ev \<Rightarrow>
          (case decodeTransfers env blockTsMap rest of
             Inl e \<Rightarrow> Inl e
           | Inr evs \<Rightarrow> Inr (ev # evs)))"

section \<open>Store: cursors and the transfer table\<close>

record cursor_row =
  start_block :: int
  last_scanned_block :: int
  updated_at :: string

text \<open>
  A row of \<^verbatim>\<open>loan_nft_transfers\<close>; the table is the list of its rows in the order of
  their \<^verbatim>\<open>id\<close>, which SQLite hands out increasing.
\<close>

record transfer_row =
  contract_key :: string
  block_number :: int
  block_timestamp :: "int option"
  tx_hash :: string
  log_index :: int
  from_addr :: string
  to_addr :: string
  token_id :: string
  is_burned :: int
  created_at :: string

text \<open>\<open>transactions\<close> counts the \<^verbatim>\<open>db.transaction\<close> blocks that were run.\<close>

record database =
  scan_cursors :: "string \<rightharpoonup> cursor_row"
  loan_nft_transfers :: "transfer_row list"
  transactions :: nat

definition ensureCursor :: "string \<Rightarrow> database \<Rightarrow> string \<Rightarrow> int \<Rightarrow> database" where
  "ensureCursor now db cursorKey startBlock =
     (case scan_cursors db cursorKey of
        Some r \<Rightarrow> db
      | None \<Rightarrow>
          db\<lparr>scan_cursors := (scan_cursors db)(cursorKey \<mapsto>
               \<lparr>start_block = startBlock, last_scanned_block = 0, updated_at = now\<rparr>)\<rparr>)"

definition updateCursor :: "string \<Rightarrow> database \<Rightarrow> string \<Rightarrow> int \<Rightarrow> database" where
  "updateCursor now db cursorKey lastBlock =
     (case scan_cursors db cursorKey of
        None \<Rightarrow> db
      | Some r \<Rightarrow>
          db\<lparr>scan_cursors := (scan_cursors db)(cursorKey \<mapsto>
               r\<lparr>last_scanned_block := lastBlock, updated_at := now\<rparr>)\<rparr>)"

text \<open>
  The prepared statement \<^verbatim>\<open>insertTransfer\<close>:
  \<^verbatim>\<open>INSERT ... ON CONFLICT(contract_key, tx_hash, log_index) DO NOTHING\<close>.
\<close>

definition conflicts :: "string \<Rightarrow> string \<Rightarrow> int \<Rightarrow> transfer_row \<Rightarrow> bool" where
  "conflicts k tx li r = (contract_key r = k \<and> tx_hash r = tx \<and> log_index r = li)"

definition insertTransfer :: "string \<Rightarrow> string \<Rightarrow> transfer_event \<Rightarrow> transfer_row list \<Rightarrow> transfer_row list" where
  "insertTransfer now k e rows =
     (if \<exists>r \<in> set rows. conflicts k (txHash e) (ev_logIndex e) r then rows
      else rows @
        [\<lparr>contract_key = k,
          block_number = ev_blockNumber e,
          block_timestamp = blockTimestamp e,
          tx_hash = txHash e,
          log_index = ev_logIndex e,
          from_addr = fromLower e,
          to_addr = toLower e,
          token_id = tokenId e,
          is_burned = (if isBurned e then 1 else 0),
          created_at = now\<rparr>])"

text \<open>The transaction \<^verbatim>\<open>tx(events)\<close>: every event of the batch, in order.\<close>

definition tx_insertTransfers :: "string \<Rightarrow> string \<Rightarrow> transfer_event list \<Rightarrow> database \<Rightarrow> database" where
  "tx_insertTransfers now k items db =
     db\<lparr>loan_nft_transfers := fold (insertTransfer now k) items (loan_nft_transfers db),
        transactions := Suc (transactions db)\<rparr>"

section \<open>The scan of one contract\<close>

text \<open>The three settings read from the environment, and a contract of the target list.\<close>

record config =
  FLR_SCAN_BLOCKS :: int
  FLR_PAUSE_MS :: int
  OVERLAP_BLOCKS :: int

record contract =
  key :: string
  address :: string
  default_start_block :: int

text \<open>
  The block a run starts from (line 182 of both scanners):
  \<^verbatim>\<open>lastScanned > 0 ? Math.max(startBlock, lastScanned - OVERLAP_BLOCKS) : startBlock\<close>.
\<close>

definition resume_fromBlock :: "config \<Rightarrow> int \<Rightarrow> int \<Rightarrow> int" where
  "resume_fromBlock cfg startBlock lastScanned =
     (if lastScanned > 0 then max startBlock (lastScanned - OVERLAP_BLOCKS cfg) else startBlock)"

text \<open>
  The header of the window loop,
  \<^verbatim>\<open>for (let b = fromBlock; b <= latestBlock; b += FLR_SCAN_BLOCKS + 1)\<close> with
  \<^verbatim>\<open>toBlock = Math.min(b + FLR_SCAN_BLOCKS, latestBlock)\<close>: the windows it visits when no
  iteration breaks. With a negative setting the loop need not end, so the result is an
  option.
\<close>

partial_function (option) scan_windows :: "config \<Rightarrow> int \<Rightarrow> int \<Rightarrow> (int \<times> int) list option" where
  "scan_windows cfg b latestBlock =
     (if b \<le> latestBlock then
        Option.bind (scan_windows cfg (b + FLR_SCAN_BLOCKS cfg + 1) latestBlock)
          (\<lambda>rest. Some ((b, min (b + FLR_SCAN_BLOCKS cfg) latestBlock) # rest))
      else Some [])"

text \<open>The variables of the loop that outlive an iteration.\<close>

record scan_state =
  st_db :: database
  st_world :: world
  lastGoodBlock :: int

datatype loop_step =
    Continue scan_state           \<comment> \<open>the body ran to its end\<close>
  | Break scan_state              \<comment> \<open>\<^verbatim>\<open>if (!res.ok) break\<close>\<close>
  | Throw js_error scan_state     \<comment> \<open>an exception left the body\<close>

text \<open>One iteration of the window loop of \<^verbatim>\<open>scanLoanNftTransfers\<close>.\<close>

definition scan_window :: "config \<Rightarrow> env \<Rightarrow> contract \<Rightarrow> int \<Rightarrow> int \<Rightarrow> scan_state \<Rightarrow> loop_step" where
  "scan_window cfg env c latestBlock b st =
     (let to = min (b + FLR_SCAN_BLOCKS cfg) latestBlock
      in case getAddress env (address c) of
           Inl e \<Rightarrow> Throw e st
         | Inr addr \<Rightarrow>
             (case getLogsWithRetry env
                     \<lparr>filter_address = addr, fromBlock = b, toBlock = to,
                      filter_topics = [[TRANSFER_TOPIC]]\<rparr> 6 (st_world st) of
                (Failed err, w1) \<Rightarrow> Break (st\<lparr>st_world := w1\<rparr>)
              | (Ok lgs, w1) \<Rightarrow>
                  (case resolveBlockTimestamps env lgs w1 of
                     (Inl e, w2) \<Rightarrow> Throw e (st\<lparr>st_world := w2\<rparr>)
                   | (Inr blockTsMap, w2) \<Rightarrow>
                       (case decodeTransfers env blockTsMap lgs of
                          Inl e \<Rightarrow> Throw e (st\<lparr>st_world := w2\<rparr>)
                        | Inr events \<Rightarrow>
                            Continue
                              \<lparr>st_db =
                                 (if events \<noteq> []
                                  then tx_insertTransfers
                                         (datetime_now env (length (getLogs_calls w2)))
                                         (key c) events (st_db st)
                                  else st_db st),
                               st_world =
                                 (if FLR_PAUSE_MS cfg > 0 then sleep (FLR_PAUSE_MS cfg) w2
                                  else w2),
                               lastGoodBlock = to\<rparr>))))"

datatype 'a completion =
    Returns 'a
  | Throws js_error 'a

text \<open>The window loop; \<open>None\<close> when it runs forever.\<close>

partial_function (option) scan_loop ::
  "config \<Rightarrow> env \<Rightarrow> contract \<Rightarrow> int \<Rightarrow> int \<Rightarrow> scan_state \<Rightarrow> scan_state completion option" where
  "scan_loop cfg env c latestBlock b st =
     (if b \<le> latestBlock then
        (case scan_window cfg env c latestBlock b st of
           Continue st1 \<Rightarrow> scan_loop cfg env c latestBlock (b + FLR_SCAN_BLOCKS cfg + 1) st1
         | Break st1 \<Rightarrow> Some (Returns st1)
         | Throw e st1 \<Rightarrow> Some (Throws e st1))
      else Some (Returns st))"

definition cursorKey_of :: "contract \<Rightarrow> string" where
  "cursorKey_of c = ''loan_nft:'' @ key c @ '':transfer''"

text \<open>What follows the loop: \<^verbatim>\<open>if (lastGoodBlock >= fromBlock) updateCursor(...)\<close>.\<close>

definition advance_cursor :: "env \<Rightarrow> contract \<Rightarrow> int \<Rightarrow> scan_state \<Rightarrow> database \<times> world" where
  "advance_cursor env c from st =
     (if lastGoodBlock st \<ge> from
      then (updateCursor (datetime_now env (length (getLogs_calls (st_world st))))
              (st_db st) (cursorKey_of c) (lastGoodBlock st),
            st_world st)
      else (st_db st, st_world st))"

text \<open>\<^verbatim>\<open>scanLoanNftTransfers(db, provider, contract)\<close>.\<close>

definition scanLoanNftTransfers ::
  "config \<Rightarrow> env \<Rightarrow> contract \<Rightarrow> database \<times> world \<Rightarrow> (database \<times> world) completion option" where
  "scanLoanNftTransfers cfg env c s =
     (let w = snd s;
          db1 = ensureCursor (datetime_now env (length (getLogs_calls w))) (fst s)
                  (cursorKey_of c) (default_start_block c)
      in case scan_cursors db1 (cursorKey_of c) of
           None \<Rightarrow> Some (Throws (Error ''TypeError'') (db1, w))
         | Some cursor \<Rightarrow>
             (case getBlockNumber env of
                Inl e \<Rightarrow> Some (Throws e (db1, w))
              | Inr latestBlock \<Rightarrow>
                  (let from = resume_fromBlock cfg (start_block cursor) (last_scanned_block cursor)
                   in if from > latestBlock then Some (Returns (db1, w))
                      else
                        (case scan_loop cfg env c latestBlock from
                                \<lparr>st_db = db1, st_world = w, lastGoodBlock = from - 1\<rparr> of
                           None \<Rightarrow> None
                         | Some (Throws e st) \<Rightarrow> Some (Throws e (st_db st, st_world st))
                         | Some (Returns st) \<Rightarrow> Some (Returns (advance_cursor env c from st))))))"

section \<open>Notions used in the statements\<close>

text \<open>
  The uniqueness key of a stored row and of an event about to be stored under a contract
  key; the \<^verbatim>\<open>UNIQUE (contract_key, tx_hash, log_index)\<close> constraint of the table; the rows
  that carry a given key.
\<close>

definition row_key :: "transfer_row \<Rightarrow> string \<times> string \<times> int" where
  "row_key r = (contract_key r, tx_hash r, log_index r)"

definition event_key :: "string \<Rightarrow> transfer_event \<Rightarrow> string \<times> string \<times> int" where
  "event_key k e = (k, txHash e, ev_logIndex e)"

definition unique_keys :: "transfer_row list \<Rightarrow> bool" where
  "unique_keys rows = distinct (map row_key rows)"

definition rows_with :: "string \<times> string \<times> int \<Rightarrow> transfer_row list \<Rightarrow> transfer_row list" where
  "rows_with t rows = filter (\<lambda>r. row_key r = t) rows"

text \<open>
  A list of windows that follow one another without gap from block \<open>a\<close> up to block
  \<open>h\<close>, none of them empty.
\<close>

fun tiling :: "int \<Rightarrow> (int \<times> int) list \<Rightarrow> int \<Rightarrow> bool" where
  "tiling a [] h = (a = h + 1)"
| "tiling a (w # ws) h = (fst w = a \<and> a \<le> snd w \<and> snd w \<le> h \<and> tiling (snd w + 1) ws h)"

text \<open>The stored \<^verbatim>\<open>last_scanned_block\<close> of a cursor key.\<close>

definition cursor_value :: "database \<Rightarrow> string \<Rightarrow> int option" where
  "cursor_value db k = map_option last_scanned_block (scan_cursors db k)"

text \<open>
  The loop variable \<open>b\<close> and the state at the head of the window loop after \<open>k\<close>
  iterations have run to their end, when the loop gets that far.
\<close>

fun loop_head ::
  "config \<Rightarrow> env \<Rightarrow> contract \<Rightarrow> int \<Rightarrow> nat \<Rightarrow> int \<Rightarrow> scan_state \<Rightarrow> (int \<times> scan_state) option" where
  "loop_head cfg env c latestBlock 0 b st = Some (b, st)"
| "loop_head cfg env c latestBlock (Suc k) b st =
     (if b \<le> latestBlock then
        (case scan_window cfg env c latestBlock b st of
           Continue st1 \<Rightarrow> loop_head cfg env c latestBlock k (b + FLR_SCAN_BLOCKS cfg + 1) st1
         | Break st1 \<Rightarrow> None
         | Throw e st1 \<Rightarrow> None)
      else None)"

text \<open>The filter of the window that starts at block \<open>b\<close>.\<close>

definition window_filter :: "config \<Rightarrow> string \<Rightarrow> int \<Rightarrow> int \<Rightarrow> log_filter" where
  "window_filter cfg addr latestBlock b =
     \<lparr>filter_address = addr, fromBlock = b,
      toBlock = min (b + FLR_SCAN_BLOCKS cfg) latestBlock,
      filter_topics = [[TRANSFER_TOPIC]]\<rparr>"

text \<open>The pause at the end of an iteration: \<^verbatim>\<open>if (FLR_PAUSE_MS > 0) await sleep(FLR_PAUSE_MS)\<close>.\<close>

definition pause :: "config \<Rightarrow> world \<Rightarrow> world" where
  "pause cfg w = (if FLR_PAUSE_MS cfg > 0 then sleep (FLR_PAUSE_MS cfg) w else w)"

text \<open>The block ranges of the \<^verbatim>\<open>getLogs\<close> calls of a trace.\<close>

definition fetched_ranges :: "world \<Rightarrow> (int \<times> int) list" where
  "fetched_ranges w = map (\<lambda>f. (fromBlock f, toBlock f)) (getLogs_calls w)"

text \<open>The state a completed loop or run ends in, returned or thrown.\<close>

definition final_state :: "'a completion \<Rightarrow> 'a" where
  "final_state r = (case r of Returns s \<Rightarrow> s | Throws e s \<Rightarrow> s)"

text \<open>
  The three guards of the decoding loop of \<^verbatim>\<open>scanLoanNftTransfers\<close>: a log fails a guard
  when its topics are missing or fewer than four, when it has no usable log index, or when
  it has no transaction hash. These are the logs the loop skips; a log can be unusable in
  another way, by carrying topics that the library does not accept, and that is not one of
  them. A log is decodable when \<^verbatim>\<open>ethers.getAddress\<close> and \<^verbatim>\<open>BigInt\<close> accept its three
  indexed topics.
\<close>

definition short_topics :: "raw_log \<Rightarrow> bool" where
  "short_topics lg = (case topics lg of None \<Rightarrow> True | Some ts \<Rightarrow> length ts < 4)"

definition no_tx_hash :: "raw_log \<Rightarrow> bool" where
  "no_tx_hash lg = (case transactionHash lg of None \<Rightarrow> True | Some tx \<Rightarrow> tx = [])"

definition fails_guard :: "raw_log \<Rightarrow> bool" where
  "fails_guard lg = (short_topics lg \<or> getStableLogIndex lg = None \<or> no_tx_hash lg)"

definition decodable :: "env \<Rightarrow> raw_log \<Rightarrow> bool" where
  "decodable env lg =
     (case topics lg of
        None \<Rightarrow> False
      | Some ts \<Rightarrow>
          \<not> isl (addressFromTopic env (ts ! 1)) \<and> \<not> isl (addressFromTopic env (ts ! 2))
          \<and> \<not> isl (tokenIdFromTopic env (ts ! 3)))"

section \<open>Concrete inputs\<close>

definition ev1 :: transfer_event where
  "ev1 = \<lparr>ev_blockNumber = 100, blockTimestamp = Some 1700000000, txHash = ''0xaa'',
          ev_logIndex = 3, fromLower = ''0x01'', toLower = ''0x02'', tokenId = ''7'',
          isBurned = False\<rparr>"

definition ev2 :: transfer_event where
  "ev2 = \<lparr>ev_blockNumber = 100, blockTimestamp = None, txHash = ''0xaa'',
          ev_logIndex = 3, fromLower = ''0x01'', toLower = ''0x03'', tokenId = ''7'',
          isBurned = False\<rparr>"

definition db0 :: database where
  "db0 = \<lparr>scan_cursors = Map.empty, loan_nft_transfers = [], transactions = 0\<rparr>"

definition w0 :: world where
  "w0 = \<lparr>getLogs_calls = [], sleeps = [], getBlock_calls = []\<rparr>"

definition flt0 :: log_filter where
  "flt0 = \<lparr>filter_address = ''0xabc'', fromBlock = 995, toBlock = 1494,
           filter_topics = [[TRANSFER_TOPIC]]\<rparr>"

text \<open>A provider that throttles every request, once with a hint; one that refuses the filter.\<close>

definition throttled :: "nat \<Rightarrow> js_error" where
  "throttled n =
     (if n = 1 then Error ''Too Many Requests, retry in 2 s'' else Error ''rate limit exceeded'')"

definition env_throttled :: env where
  "env_throttled =
     \<lparr>getBlockNumber = Inr 2000,
      getLogs = (\<lambda>n f. Inl (throttled n)),
      getBlock = (\<lambda>n bn. BlockNull),
      getAddress = Inr,
      BigInt_toString = Inr,
      datetime_now = (\<lambda>n. ''2026-01-01 00:00:00'')\<rparr>"

definition env_refusing :: env where
  "env_refusing =
     \<lparr>getBlockNumber = Inr 2000,
      getLogs = (\<lambda>n f. Inl (Error ''invalid block range'')),
      getBlock = (\<lambda>n bn. BlockNull),
      getAddress = Inr,
      BigInt_toString = Inr,
      datetime_now = (\<lambda>n. ''2026-01-01 00:00:00'')\<rparr>"

text \<open>
  A configuration with windows of 500 blocks and an overlap of 5, a contract, a store whose
  cursor for the contract stands at a given block, and a provider with a given head block
  that answers every request with no logs.
\<close>

definition cfg0 :: config where
  "cfg0 = \<lparr>FLR_SCAN_BLOCKS = 499, FLR_PAUSE_MS = 0, OVERLAP_BLOCKS = 5\<rparr>"

definition c0 :: contract where
  "c0 = \<lparr>key = ''usdx'', address = ''0xabc'', default_start_block = 100\<rparr>"

definition db_at :: "int \<Rightarrow> database" where
  "db_at n =
     \<lparr>scan_cursors = [cursorKey_of c0 \<mapsto>
        \<lparr>start_block = 100, last_scanned_block = n, updated_at = ''2025-12-31 00:00:00''\<rparr>],
      loan_nft_transfers = [], transactions = 0\<rparr>"

definition env_quiet :: "int \<Rightarrow> env" where
  "env_quiet head =
     \<lparr>getBlockNumber = Inr head,
      getLogs = (\<lambda>n f. Inr []),
      getBlock = (\<lambda>n bn. BlockNull),
      getAddress = Inr,
      BigInt_toString = Inr,
      datetime_now = (\<lambda>n. ''2026-01-01 00:00:00'')\<rparr>"

text \<open>
  Windows of three blocks, and a provider that answers the first request and refuses every
  later one.
\<close>

definition cfg_small :: config where
  "cfg_small = \<lparr>FLR_SCAN_BLOCKS = 2, FLR_PAUSE_MS = 0, OVERLAP_BLOCKS = 5\<rparr>"

definition env_first_only :: "int \<Rightarrow> env" where
  "env_first_only head =
     \<lparr>getBlockNumber = Inr head,
      getLogs = (\<lambda>n f. if n = 0 then Inr [] else Inl (Error ''invalid block range'')),
      getBlock = (\<lambda>n bn. BlockNull),
      getAddress = Inr,
      BigInt_toString = Inr,
      datetime_now = (\<lambda>n. ''2026-01-01 00:00:00'')\<rparr>"

definition cursor_row_at :: "int \<Rightarrow> string \<Rightarrow> cursor_row" where
  "cursor_row_at n t = \<lparr>start_block = 100, last_scanned_block = n, updated_at = t\<rparr>"

definition db_after :: "int \<Rightarrow> database" where
  "db_after n =
     \<lparr>scan_cursors = [cursorKey_of c0 \<mapsto> cursor_row_at n ''2026-01-01 00:00:00''],
      loan_nft_transfers = [], transactions = 0\<rparr>"

text \<open>A log without topics, and a provider that delivers it in every window.\<close>

definition lg_junk :: raw_log where
  "lg_junk = \<lparr>index = JInt 0, logIndex = JUndefined, blockNumber = 1000,
              transactionHash = Some ''0xaa'', topics = None\<rparr>"

definition env_junk :: "int \<Rightarrow> env" where
  "env_junk head =
     \<lparr>getBlockNumber = Inr head,
      getLogs = (\<lambda>n f. Inr [lg_junk]),
      getBlock = (\<lambda>n bn. Block (Some 1700000000)),
      getAddress = Inr,
      BigInt_toString = Inr,
      datetime_now = (\<lambda>n. ''2026-01-01 00:00:00'')\<rparr>"

text \<open>
  A transfer log as a node delivers it, with a given log index; one with two topics only;
  one whose two index fields are unusable; and a batch of eight of the first kind and one
  of each of the others.
\<close>

definition lg_ok :: "int \<Rightarrow> raw_log" where
  "lg_ok n =
     \<lparr>index = JInt n, logIndex = JUndefined, blockNumber = 1000,
      transactionHash = Some ''0xaa'',
      topics = Some [TRANSFER_TOPIC,
        ''0x0000000000000000000000001111111111111111111111111111111111111111'',
        ''0x0000000000000000000000002222222222222222222222222222222222222222'',
        ''0x0000000000000000000000000000000000000000000000000000000000000007'']\<rparr>"

definition lg_short :: raw_log where
  "lg_short = \<lparr>index = JInt 8, logIndex = JUndefined, blockNumber = 1000,
               transactionHash = Some ''0xaa'',
               topics = Some [TRANSFER_TOPIC,
                 ''0x0000000000000000000000001111111111111111111111111111111111111111'']\<rparr>"

definition lg_noindex :: raw_log where
  "lg_noindex = (lg_ok (- 1))\<lparr>logIndex := JString ''-5''\<rparr>"

definition batch10 :: "raw_log list" where
  "batch10 = [lg_ok 0, lg_ok 1, lg_short, lg_ok 2, lg_ok 3, lg_ok 4, lg_noindex,
              lg_ok 5, lg_ok 6, lg_ok 7]"

text \<open>A provider whose block lookups time out, and which delivers one transfer log.\<close>

definition env_block_fails :: env where
  "env_block_fails =
     \<lparr>getBlockNumber = Inr 1200,
      getLogs = (\<lambda>n f. Inr [lg_ok 0]),
      getBlock = (\<lambda>n bn. BlockThrows (Error ''timeout'')),
      getAddress = Inr,
      BigInt_toString = Inr,
      datetime_now = (\<lambda>n. ''2026-01-01 00:00:00'')\<rparr>"

text \<open>A provider that throttles the first request and answers every later one.\<close>

definition env_retry_once :: "int \<Rightarrow> env" where
  "env_retry_once head =
     \<lparr>getBlockNumber = Inr head,
      getLogs = (\<lambda>n f. if n = 0 then Inl (Error ''rate limit exceeded'') else Inr []),
      getBlock = (\<lambda>n bn. BlockNull),
      getAddress = Inr,
      BigInt_toString = Inr,
      datetime_now = (\<lambda>n. ''2026-01-01 00:00:00'')\<rparr>"




section \<open>Persistence: idempotent commit\<close>

lemma conflicts_row_key: "conflicts k tx li r \<longleftrightarrow> row_key r = (k, tx, li)"
  by (auto simp: conflicts_def row_key_def)

lemma insertTransfer_present:
  "event_key k e \<in> row_key ` set rows \<Longrightarrow> insertTransfer now k e rows = rows"
  by (auto simp: insertTransfer_def conflicts_row_key event_key_def)

lemma insertTransfer_keys:
  "row_key ` set (insertTransfer now k e rows) = insert (event_key k e) (row_key ` set rows)"
  by (auto simp: insertTransfer_def conflicts_row_key event_key_def row_key_def)

lemma insertTransfer_unique:
  "unique_keys rows \<Longrightarrow> unique_keys (insertTransfer now k e rows)"
  by (auto simp: insertTransfer_def unique_keys_def conflicts_row_key event_key_def row_key_def)

lemma insertTransfer_extends: "\<exists>new. insertTransfer now k e rows = rows @ new"
  by (simp add: insertTransfer_def)

lemma fold_insert_keys:
  "row_key ` set (fold (insertTransfer now k) items rows) = event_key k ` set items \<union> row_key ` set rows"
  by (induction items arbitrary: rows) (auto simp: insertTransfer_keys)

lemma fold_insert_unique:
  "unique_keys rows \<Longrightarrow> unique_keys (fold (insertTransfer now k) items rows)"
  by (induction items arbitrary: rows) (auto simp: insertTransfer_unique)

lemma fold_insert_extends: "\<exists>new. fold (insertTransfer now k) items rows = rows @ new"
proof (induction items arbitrary: rows)
  case Nil
  then show ?case by simp
next
  case (Cons e items)
  obtain n1 where n1: "insertTransfer now k e rows = rows @ n1"
    using insertTransfer_extends by blast
  obtain n2 where "fold (insertTransfer now k) items (rows @ n1) = (rows @ n1) @ n2"
    using Cons.IH by blast
  with n1 show ?case by simp
qed

lemma fold_insert_present:
  "event_key k ` set items \<subseteq> row_key ` set rows \<Longrightarrow> fold (insertTransfer now k) items rows = rows"
  by (induction items arbitrary: rows) (auto simp: insertTransfer_present)

lemma fold_insert_twice:
  "fold (insertTransfer now2 k) items (fold (insertTransfer now1 k) items rows) =
   fold (insertTransfer now1 k) items rows"
  by (rule fold_insert_present) (simp add: fold_insert_keys)

lemma rows_with_absent: "t \<notin> row_key ` set rows \<Longrightarrow> rows_with t rows = []"
  by (induction rows) (auto simp: rows_with_def)

lemma unique_rows_with:
  assumes "unique_keys rows" and "t \<in> row_key ` set rows"
  shows "length (rows_with t rows) = 1"
  using assms
proof (induction rows)
  case Nil
  then show ?case by simp
next
  case (Cons r rows)
  show ?case
  proof (cases "row_key r = t")
    case True
    with Cons.prems(1) have "t \<notin> row_key ` set rows" by (auto simp: unique_keys_def)
    then have "rows_with t rows = []" by (rule rows_with_absent)
    with True show ?thesis by (simp add: rows_with_def)
  next
    case False
    with Cons.prems have "unique_keys rows" "t \<in> row_key ` set rows"
      by (auto simp: unique_keys_def)
    then have "length (rows_with t rows) = 1" by (rule Cons.IH)
    with False show ?thesis by (simp add: rows_with_def)
  qed
qed

text \<open>
  Claim C1. A record whose key (contract key, transaction hash, log index) is already in the
  table is not inserted and the table stays as it is; committing a batch a second time
  leaves the rows of the first commit, which only appended to the rows that were there;
  the keys stay unique; and when two events of two batches share their key, the table
  holds exactly one row with that key after both commits. The insertion is a total
  function: it has no error to return.
\<close>

theorem commit_idempotent:
  "(event_key k e \<in> row_key ` set rows \<longrightarrow> insertTransfer now k e rows = rows)
   \<and> loan_nft_transfers (tx_insertTransfers now2 k items (tx_insertTransfers now1 k items db))
       = loan_nft_transfers (tx_insertTransfers now1 k items db)
   \<and> (\<exists>new. loan_nft_transfers (tx_insertTransfers now1 k items db) = loan_nft_transfers db @ new)
   \<and> (unique_keys (loan_nft_transfers db) \<longrightarrow>
        unique_keys (loan_nft_transfers (tx_insertTransfers now1 k items db)))
   \<and> (unique_keys (loan_nft_transfers db) \<and> a \<in> set items \<and> b \<in> set items2
        \<and> event_key k a = event_key k b \<longrightarrow>
        length (rows_with (event_key k a)
          (loan_nft_transfers (tx_insertTransfers now2 k items2 (tx_insertTransfers now1 k items db)))) = 1)"
proof (intro conjI impI)
  assume "event_key k e \<in> row_key ` set rows"
  then show "insertTransfer now k e rows = rows" by (rule insertTransfer_present)
next
  show "loan_nft_transfers (tx_insertTransfers now2 k items (tx_insertTransfers now1 k items db))
       = loan_nft_transfers (tx_insertTransfers now1 k items db)"
    by (simp add: tx_insertTransfers_def fold_insert_twice)
next
  show "\<exists>new. loan_nft_transfers (tx_insertTransfers now1 k items db) = loan_nft_transfers db @ new"
    by (simp add: tx_insertTransfers_def fold_insert_extends)
next
  assume "unique_keys (loan_nft_transfers db)"
  then show "unique_keys (loan_nft_transfers (tx_insertTransfers now1 k items db))"
    by (simp add: tx_insertTransfers_def fold_insert_unique)
next
  assume h: "unique_keys (loan_nft_transfers db) \<and> a \<in> set items \<and> b \<in> set items2
        \<and> event_key k a = event_key k b"
  let ?rows = "loan_nft_transfers (tx_insertTransfers now2 k items2 (tx_insertTransfers now1 k items db))"
  have "unique_keys ?rows"
    using h by (simp add: tx_insertTransfers_def fold_insert_unique)
  moreover have "event_key k a \<in> row_key ` set ?rows"
    using h by (auto simp: tx_insertTransfers_def fold_insert_keys)
  ultimately show "length (rows_with (event_key k a) ?rows) = 1"
    by (rule unique_rows_with)
qed

theorem commit_idempotent_witness:
  "loan_nft_transfers (tx_insertTransfers ''t2'' ''k'' [ev1] (tx_insertTransfers ''t1'' ''k'' [ev1] db0))
     = loan_nft_transfers (tx_insertTransfers ''t1'' ''k'' [ev1] db0)
   \<and> length (rows_with (''k'', ''0xaa'', 3)
       (loan_nft_transfers (tx_insertTransfers ''t2'' ''k'' [ev2] (tx_insertTransfers ''t1'' ''k'' [ev1] db0)))) = 1
   \<and> insertTransfer ''t2'' ''k'' ev2 (insertTransfer ''t1'' ''k'' ev1 []) = insertTransfer ''t1'' ''k'' ev1 []"
proof -
  have u: "unique_keys (loan_nft_transfers db0)" by (simp add: unique_keys_def db0_def)
  have k: "event_key ''k'' ev1 = event_key ''k'' ev2" by (simp add: event_key_def ev1_def ev2_def)
  have k1: "event_key ''k'' ev1 = (''k'', ''0xaa'', 3)" by (simp add: event_key_def ev1_def)
  have p: "event_key ''k'' ev2 \<in> row_key ` set (insertTransfer ''t1'' ''k'' ev1 [])"
    by (simp add: insertTransfer_def event_key_def row_key_def ev1_def ev2_def)
  note inst = commit_idempotent[where k = "''k''" and e = ev2 and rows = "insertTransfer ''t1'' ''k'' ev1 []"
        and now = "''t2''" and ?now2.0 = "''t2''" and items = "[ev1]" and ?now1.0 = "''t1''" and db = db0
        and a = ev1 and b = ev2 and ?items2.0 = "[ev2]"]
  have c1: "insertTransfer ''t2'' ''k'' ev2 (insertTransfer ''t1'' ''k'' ev1 []) = insertTransfer ''t1'' ''k'' ev1 []"
    using inst p by blast
  have c2: "loan_nft_transfers (tx_insertTransfers ''t2'' ''k'' [ev1] (tx_insertTransfers ''t1'' ''k'' [ev1] db0))
     = loan_nft_transfers (tx_insertTransfers ''t1'' ''k'' [ev1] db0)"
    using inst by blast
  have "length (rows_with (event_key ''k'' ev1)
       (loan_nft_transfers (tx_insertTransfers ''t2'' ''k'' [ev2] (tx_insertTransfers ''t1'' ''k'' [ev1] db0)))) = 1"
    using inst u k by simp
  then have c5: "length (rows_with (''k'', ''0xaa'', 3)
       (loan_nft_transfers (tx_insertTransfers ''t2'' ''k'' [ev2] (tx_insertTransfers ''t1'' ''k'' [ev1] db0)))) = 1"
    by (simp only: k1)
  show ?thesis using c1 c2 c5 by blast
qed

section \<open>The window loop, step by step\<close>

lemma getLogsWithRetry_first_ok:
  assumes "getLogs env (length (getLogs_calls w)) flt = Inr lgs" and "0 < m"
  shows "getLogsWithRetry env flt m w = (Ok lgs, w\<lparr>getLogs_calls := getLogs_calls w @ [flt]\<rparr>)"
  using assms by (simp add: getLogsWithRetry_def getLogsWithRetry_loop.simps call_getLogs_def)

lemma resolveBlockTimestamps_Nil: "resolveBlockTimestamps env [] w = (Inr Map.empty, w)"
  by (simp add: resolveBlockTimestamps_def uniqueBlocks_def rejections_def)

lemma scan_window_quiet:
  assumes "getAddress env (address c) = Inr addr"
    and "getLogs env (length (getLogs_calls (st_world st))) (window_filter cfg addr latest b) = Inr []"
  shows "scan_window cfg env c latest b st =
           Continue \<lparr>st_db = st_db st,
                     st_world = pause cfg ((st_world st)\<lparr>getLogs_calls :=
                        getLogs_calls (st_world st) @ [window_filter cfg addr latest b]\<rparr>),
                     lastGoodBlock = min (b + FLR_SCAN_BLOCKS cfg) latest\<rparr>"
  using assms
  by (simp add: scan_window_def window_filter_def getLogsWithRetry_first_ok
      resolveBlockTimestamps_Nil pause_def Let_def)

lemma scan_loop_exit: "\<not> b \<le> latest \<Longrightarrow> scan_loop cfg env c latest b st = Some (Returns st)"
  by (subst scan_loop.simps) simp

lemma scan_loop_Continue:
  "b \<le> latest \<Longrightarrow> scan_window cfg env c latest b st = Continue st1 \<Longrightarrow>
   scan_loop cfg env c latest b st = scan_loop cfg env c latest (b + FLR_SCAN_BLOCKS cfg + 1) st1"
  by (subst scan_loop.simps) simp

lemma scan_loop_Break:
  "b \<le> latest \<Longrightarrow> scan_window cfg env c latest b st = Break st1 \<Longrightarrow>
   scan_loop cfg env c latest b st = Some (Returns st1)"
  by (subst scan_loop.simps) simp

lemma scan_loop_Throw:
  "b \<le> latest \<Longrightarrow> scan_window cfg env c latest b st = Throw e st1 \<Longrightarrow>
   scan_loop cfg env c latest b st = Some (Throws e st1)"
  by (subst scan_loop.simps) simp

lemma loop_head_scan_loop:
  "loop_head cfg env c latest k b0 st0 = Some (b, st) \<Longrightarrow>
   scan_loop cfg env c latest b0 st0 = scan_loop cfg env c latest b st"
proof (induction k arbitrary: b0 st0)
  case 0
  then show ?case by simp
next
  case (Suc k)
  from Suc.prems have le: "b0 \<le> latest" by (simp split: if_splits)
  from Suc.prems le obtain st1 where
    w: "scan_window cfg env c latest b0 st0 = Continue st1"
    and h: "loop_head cfg env c latest k (b0 + FLR_SCAN_BLOCKS cfg + 1) st1 = Some (b, st)"
    by (auto split: loop_step.splits)
  show ?case
    using scan_loop_Continue[OF le w] Suc.IH[OF h] by simp
qed

lemma ensureCursor_present:
  "scan_cursors db k = Some cur \<Longrightarrow> ensureCursor now db k s = db"
  by (simp add: ensureCursor_def)

lemma scan_skipped:
  assumes "scan_cursors (ensureCursor (datetime_now env (length (getLogs_calls w))) db
              (cursorKey_of c) (default_start_block c)) (cursorKey_of c) = Some cur"
    and "getBlockNumber env = Inr head"
    and "head < resume_fromBlock cfg (start_block cur) (last_scanned_block cur)"
  shows "scanLoanNftTransfers cfg env c (db, w) =
           Some (Returns (ensureCursor (datetime_now env (length (getLogs_calls w))) db
              (cursorKey_of c) (default_start_block c), w))"
  using assms by (simp add: scanLoanNftTransfers_def Let_def)

lemma fetched_ranges_pause [simp]: "fetched_ranges (pause cfg w) = fetched_ranges w"
  by (simp add: pause_def sleep_def fetched_ranges_def)

lemma getBlock_calls_pause [simp]: "getBlock_calls (pause cfg w) = getBlock_calls w"
  by (simp add: pause_def sleep_def)

lemma getLogs_calls_pause [simp]: "getLogs_calls (pause cfg w) = getLogs_calls w"
  by (simp add: pause_def sleep_def)

lemma scan_loop_quiet:
  assumes "0 \<le> FLR_SCAN_BLOCKS cfg" and "getAddress env (address c) = Inr addr"
    and "\<forall>n f. getLogs env n f = Inr []" and "b \<le> latest + 1"
  shows "\<exists>ws w'. scan_windows cfg b latest = Some ws
           \<and> scan_loop cfg env c latest b st =
               Some (Returns \<lparr>st_db = st_db st, st_world = w',
                       lastGoodBlock = (if ws = [] then lastGoodBlock st else latest)\<rparr>)
           \<and> fetched_ranges w' = fetched_ranges (st_world st) @ ws"
  using assms(4)
proof (induction "nat (latest + 1 - b)" arbitrary: b st rule: less_induct)
  case less
  let ?sz = "FLR_SCAN_BLOCKS cfg"
  show ?case
  proof (cases "b \<le> latest")
    case False
    then have "scan_windows cfg b latest = Some []" by (subst scan_windows.simps) simp
    moreover have "scan_loop cfg env c latest b st = Some (Returns st)"
      using False by (rule scan_loop_exit)
    ultimately show ?thesis by (auto intro!: exI[of _ "st_world st"])
  next
    case True
    let ?st1 = "\<lparr>st_db = st_db st,
                 st_world = pause cfg ((st_world st)\<lparr>getLogs_calls :=
                        getLogs_calls (st_world st) @ [window_filter cfg addr latest b]\<rparr>),
                 lastGoodBlock = min (b + ?sz) latest\<rparr>"
    have w: "scan_window cfg env c latest b st = Continue ?st1"
      using assms(2,3) by (intro scan_window_quiet) auto
    have step: "scan_loop cfg env c latest b st = scan_loop cfg env c latest (b + ?sz + 1) ?st1"
      by (rule scan_loop_Continue[OF True w])
    have fr: "fetched_ranges (st_world ?st1) = fetched_ranges (st_world st) @ [(b, min (b + ?sz) latest)]"
      by (simp add: fetched_ranges_def window_filter_def)
    show ?thesis
    proof (cases "b + ?sz + 1 \<le> latest + 1")
      case le: True
      have "nat (latest + 1 - (b + ?sz + 1)) < nat (latest + 1 - b)"
        using assms(1) True by simp
      from less.hyps[OF this le, of ?st1]
      obtain ws w' where ws: "scan_windows cfg (b + ?sz + 1) latest = Some ws"
        and run: "scan_loop cfg env c latest (b + ?sz + 1) ?st1 =
               Some (Returns \<lparr>st_db = st_db ?st1, st_world = w',
                       lastGoodBlock = (if ws = [] then lastGoodBlock ?st1 else latest)\<rparr>)"
        and fw: "fetched_ranges w' = fetched_ranges (st_world ?st1) @ ws"
        by blast
      have sw: "scan_windows cfg b latest = Some ((b, min (b + ?sz) latest) # ws)"
        using True ws by (subst scan_windows.simps) simp
      have lg: "(if ws = [] then lastGoodBlock ?st1 else latest) = latest"
      proof (cases "ws = []")
        case True
        with ws have "\<not> b + ?sz + 1 \<le> latest"
          by (subst (asm) scan_windows.simps) (auto split: if_splits bind_splits)
        then show ?thesis by simp
      qed simp
      show ?thesis
        using sw run fw fr lg unfolding step by simp
    next
      case False
      then have gt: "\<not> b + ?sz + 1 \<le> latest" by simp
      then have "scan_windows cfg (b + ?sz + 1) latest = Some []" by (subst scan_windows.simps) simp
      then have sw: "scan_windows cfg b latest = Some [(b, min (b + ?sz) latest)]"
        using True by (subst scan_windows.simps) simp
      have "scan_loop cfg env c latest (b + ?sz + 1) ?st1 = Some (Returns ?st1)"
        using gt by (rule scan_loop_exit)
      moreover have "min (b + ?sz) latest = latest" using gt by simp
      ultimately show ?thesis
        using sw fr unfolding step by simp
    qed
  qed
qed

lemma scan_run:
  assumes "scan_cursors (ensureCursor (datetime_now env (length (getLogs_calls w))) db
              (cursorKey_of c) (default_start_block c)) (cursorKey_of c) = Some cur"
    and "getBlockNumber env = Inr latest"
    and "resume_fromBlock cfg (start_block cur) (last_scanned_block cur) = b0"
    and "b0 \<le> latest"
    and "scan_loop cfg env c latest b0
           \<lparr>st_db = ensureCursor (datetime_now env (length (getLogs_calls w))) db
              (cursorKey_of c) (default_start_block c),
            st_world = w, lastGoodBlock = b0 - 1\<rparr> = Some r"
  shows "scanLoanNftTransfers cfg env c (db, w) =
           Some (case r of
                   Returns st \<Rightarrow> Returns (advance_cursor env c b0 st)
                 | Throws e st \<Rightarrow> Throws e (st_db st, st_world st))"
  using assms by (simp add: scanLoanNftTransfers_def Let_def split: completion.splits)

lemma scan_window_cursors:
  "scan_window cfg env c latest b st = Continue st1 \<Longrightarrow> scan_cursors (st_db st1) = scan_cursors (st_db st)"
  "scan_window cfg env c latest b st = Break st1 \<Longrightarrow> scan_cursors (st_db st1) = scan_cursors (st_db st)"
  "scan_window cfg env c latest b st = Throw e st1 \<Longrightarrow> scan_cursors (st_db st1) = scan_cursors (st_db st)"
  by (auto simp: scan_window_def Let_def tx_insertTransfers_def
      split: sum.splits prod.splits fetch_result.splits if_splits)

lemma scan_loop_cursors:
  assumes "scan_loop cfg env c latest b st = Some r"
  shows "scan_cursors (st_db (final_state r)) = scan_cursors (st_db st)"
proof (rule scan_loop.raw_induct[where P = "\<lambda>cfg env c latest b st r.
          scan_cursors (st_db (final_state r)) = scan_cursors (st_db st)", OF _ assms])
  fix loop cfg env c latest b st r
  assume IH: "\<And>cfg env c latest b st r. loop cfg env c latest b st = Some r \<Longrightarrow>
          scan_cursors (st_db (final_state r)) = scan_cursors (st_db st)"
    and eq: "(if b \<le> latest
      then case scan_window cfg env c latest b st of
           Continue st1 \<Rightarrow> loop cfg env c latest (b + FLR_SCAN_BLOCKS cfg + 1) st1
           | Break st1 \<Rightarrow> Some (Returns st1)
           | Throw e st1 \<Rightarrow> Some (Throws e st1)
      else Some (Returns st)) = Some r"
  show "scan_cursors (st_db (final_state r)) = scan_cursors (st_db st)"
  proof (cases "b \<le> latest")
    case False
    with eq show ?thesis by (auto simp: final_state_def)
  next
    case True
    show ?thesis
    proof (cases "scan_window cfg env c latest b st")
      case (Continue st1)
      with True eq have "loop cfg env c latest (b + FLR_SCAN_BLOCKS cfg + 1) st1 = Some r" by simp
      from IH[OF this] scan_window_cursors(1)[OF Continue] show ?thesis by simp
    next
      case (Break st1)
      with True eq scan_window_cursors(2)[OF Break] show ?thesis by (auto simp: final_state_def)
    next
      case (Throw e st1)
      with True eq scan_window_cursors(3)[OF Throw] show ?thesis by (auto simp: final_state_def)
    qed
  qed
qed

lemma scan_window_lastGood:
  "scan_window cfg env c latest b st = Continue st1 \<Longrightarrow>
     lastGoodBlock st1 = min (b + FLR_SCAN_BLOCKS cfg) latest"
  "scan_window cfg env c latest b st = Break st1 \<Longrightarrow> lastGoodBlock st1 = lastGoodBlock st"
  by (auto simp: scan_window_def Let_def
      split: sum.splits prod.splits fetch_result.splits if_splits)

lemma scan_window_no_break:
  assumes "\<forall>n f. \<exists>lgs. getLogs env n f = Inr lgs"
  shows "scan_window cfg env c latest b st \<noteq> Break st1"
proof -
  have "\<exists>lgs. getLogsWithRetry env flt 6 w = (Ok lgs, w\<lparr>getLogs_calls := getLogs_calls w @ [flt]\<rparr>)"
    for flt w
  proof -
    from assms obtain lgs where "getLogs env (length (getLogs_calls w)) flt = Inr lgs" by blast
    then show ?thesis using getLogsWithRetry_first_ok[of env w flt lgs 6] by simp
  qed
  then show ?thesis
    by (auto simp: scan_window_def Let_def split: sum.splits prod.splits fetch_result.splits)
       (metis fetch_result.distinct(1) fst_conv)
qed

lemma scan_loop_no_break:
  assumes "0 \<le> FLR_SCAN_BLOCKS cfg" and "\<forall>n f. \<exists>lgs. getLogs env n f = Inr lgs"
    and "b \<le> latest" and "scan_loop cfg env c latest b st = Some (Returns st')"
  shows "lastGoodBlock st' = latest"
  using assms(3,4)
proof (induction "nat (latest - b)" arbitrary: b st rule: less_induct)
  case less
  let ?sz = "FLR_SCAN_BLOCKS cfg"
  show ?case
  proof (cases "scan_window cfg env c latest b st")
    case (Break st1)
    with scan_window_no_break[OF assms(2)] show ?thesis by blast
  next
    case (Throw e st1)
    from scan_loop_Throw[OF less.prems(1) Throw] less.prems(2) show ?thesis by simp
  next
    case (Continue st1)
    note step = scan_loop_Continue[OF less.prems(1) Continue]
    show ?thesis
    proof (cases "b + ?sz + 1 \<le> latest")
      case True
      have m: "nat (latest - (b + ?sz + 1)) < nat (latest - b)"
        using assms(1) True by simp
      from less.prems(2) step have "scan_loop cfg env c latest (b + ?sz + 1) st1 = Some (Returns st')"
        by simp
      from less.hyps[OF m True this] show ?thesis .
    next
      case False
      then have "scan_loop cfg env c latest (b + ?sz + 1) st1 = Some (Returns st1)"
        by (rule scan_loop_exit)
      with less.prems(2) step have "st' = st1" by simp
      moreover have "lastGoodBlock st1 = min (b + ?sz) latest"
        by (rule scan_window_lastGood(1)[OF Continue])
      ultimately show ?thesis using False by simp
    qed
  qed
qed

lemma cursor_value_updateCursor:
  "scan_cursors db k = Some cur \<Longrightarrow> cursor_value (updateCursor now db k n) k = Some n"
  by (simp add: cursor_value_def updateCursor_def)

lemma advance_cursor_value:
  assumes "scan_cursors (st_db st) (cursorKey_of c) = Some cur"
  shows "cursor_value (fst (advance_cursor env c b0 st)) (cursorKey_of c) =
           Some (if lastGoodBlock st \<ge> b0 then lastGoodBlock st else last_scanned_block cur)"
proof (cases "lastGoodBlock st \<ge> b0")
  case True
  then show ?thesis using cursor_value_updateCursor[OF assms] by (simp add: advance_cursor_def)
next
  case False
  then show ?thesis using assms by (simp add: advance_cursor_def cursor_value_def)
qed

lemma scan_returns_cases:
  assumes run: "scanLoanNftTransfers cfg env c (db, w) = Some (Returns (db', w'))"
    and cur: "scan_cursors (ensureCursor (datetime_now env (length (getLogs_calls w))) db
                (cursorKey_of c) (default_start_block c)) (cursorKey_of c) = Some cur"
  obtains (skipped) latest where "getBlockNumber env = Inr latest"
      and "latest < resume_fromBlock cfg (start_block cur) (last_scanned_block cur)"
      and "db' = ensureCursor (datetime_now env (length (getLogs_calls w))) db
                (cursorKey_of c) (default_start_block c)" and "w' = w"
    | (scanned) latest st' where "getBlockNumber env = Inr latest"
      and "resume_fromBlock cfg (start_block cur) (last_scanned_block cur) \<le> latest"
      and "scan_loop cfg env c latest (resume_fromBlock cfg (start_block cur) (last_scanned_block cur))
             \<lparr>st_db = ensureCursor (datetime_now env (length (getLogs_calls w))) db
                (cursorKey_of c) (default_start_block c),
              st_world = w,
              lastGoodBlock = resume_fromBlock cfg (start_block cur) (last_scanned_block cur) - 1\<rparr>
            = Some (Returns st')"
      and "(db', w') = advance_cursor env c
              (resume_fromBlock cfg (start_block cur) (last_scanned_block cur)) st'"
proof -
  let ?db1 = "ensureCursor (datetime_now env (length (getLogs_calls w))) db
                (cursorKey_of c) (default_start_block c)"
  let ?b0 = "resume_fromBlock cfg (start_block cur) (last_scanned_block cur)"
  from run cur obtain latest where head: "getBlockNumber env = Inr latest"
    by (cases "getBlockNumber env") (auto simp: scanLoanNftTransfers_def Let_def)
  show thesis
  proof (cases "latest < ?b0")
    case True
    with run cur head have "db' = ?db1" "w' = w"
      by (auto simp: scanLoanNftTransfers_def Let_def)
    with head True show ?thesis by (rule skipped)
  next
    case False
    with run cur head obtain st' where
      "scan_loop cfg env c latest ?b0 \<lparr>st_db = ?db1, st_world = w, lastGoodBlock = ?b0 - 1\<rparr>
         = Some (Returns st')" "(db', w') = advance_cursor env c ?b0 st'"
      by (auto simp: scanLoanNftTransfers_def Let_def split: option.splits completion.splits)
    with head False show ?thesis by (intro scanned[of latest st']) auto
  qed
qed

lemma not_retry_invalid: "\<not> shouldRetry (Error ''invalid block range'')"
  by (simp add: shouldRetry_def isRateLimitError_def toLowerCase_def lowerChar_def
        parseRetryAfterMs_def match_retry_at_def)

lemma quiet_run_2000:
  "scanLoanNftTransfers cfg0 (env_quiet 2000) c0 (db_at 1000, w0) =
     Some (Returns (db_after 2000,
       \<lparr>getLogs_calls = [window_filter cfg0 ''0xabc'' 2000 995,
                        window_filter cfg0 ''0xabc'' 2000 1495,
                        window_filter cfg0 ''0xabc'' 2000 1995],
        sleeps = [], getBlock_calls = []\<rparr>))"
  by (simp add: scanLoanNftTransfers_def ensureCursor_def db_at_def env_quiet_def cfg0_def
        resume_fromBlock_def scan_loop.simps scan_window_def getLogsWithRetry_def
        getLogsWithRetry_loop.simps call_getLogs_def w0_def c0_def resolveBlockTimestamps_Nil
        advance_cursor_def updateCursor_def window_filter_def cursor_row_at_def Let_def
        db_after_def)

lemma loop_head_le:
  "loop_head cfg env c latest k b0 st0 = Some (b, st) \<Longrightarrow> b \<le> latest \<Longrightarrow> b0 \<le> latest"
  by (cases k) (auto split: if_splits)

lemma loop_head_b:
  "loop_head cfg env c latest k b0 st0 = Some (b, st) \<Longrightarrow>
   b = b0 + int k * (FLR_SCAN_BLOCKS cfg + 1)"
proof (induction k arbitrary: b0 st0)
  case 0
  then show ?case by simp
next
  case (Suc k)
  from Suc.prems obtain st1 where
    "loop_head cfg env c latest k (b0 + FLR_SCAN_BLOCKS cfg + 1) st1 = Some (b, st)"
    by (auto split: if_splits loop_step.splits)
  from Suc.IH[OF this] show ?case by (simp add: algebra_simps)
qed

lemma loop_head_lastGood:
  "loop_head cfg env c latest (Suc k) b0 st0 = Some (b, st) \<Longrightarrow>
   lastGoodBlock st = min (b - 1) latest"
proof (induction k arbitrary: b0 st0)
  case 0
  then obtain st1 where w: "scan_window cfg env c latest b0 st0 = Continue st1"
    and e: "b = b0 + FLR_SCAN_BLOCKS cfg + 1" "st = st1"
    by (auto split: if_splits loop_step.splits)
  from scan_window_lastGood(1)[OF w] e show ?case by simp
next
  case (Suc k)
  from Suc.prems obtain st1 where
    "loop_head cfg env c latest (Suc k) (b0 + FLR_SCAN_BLOCKS cfg + 1) st1 = Some (b, st)"
    by (auto split: if_splits loop_step.splits)
  from Suc.IH[OF this] show ?case .
qed

lemma scan_windows_nth:
  assumes "0 \<le> FLR_SCAN_BLOCKS cfg"
  shows "scan_windows cfg b0 latest = Some ws \<Longrightarrow>
         b0 + int k * (FLR_SCAN_BLOCKS cfg + 1) \<le> latest \<Longrightarrow>
         k < length ws \<and>
         ws ! k = (b0 + int k * (FLR_SCAN_BLOCKS cfg + 1),
                   min (b0 + int k * (FLR_SCAN_BLOCKS cfg + 1) + FLR_SCAN_BLOCKS cfg) latest)"
proof (induction k arbitrary: b0 ws)
  case 0
  then show ?case
    by (subst (asm) scan_windows.simps) (auto split: if_splits bind_splits)
next
  case (Suc k)
  let ?sz = "FLR_SCAN_BLOCKS cfg"
  have "0 \<le> int (Suc k) * (?sz + 1)" using assms by simp
  with Suc.prems(2) have le: "b0 \<le> latest" by linarith
  from Suc.prems(1) le obtain rest where
    rest: "scan_windows cfg (b0 + ?sz + 1) latest = Some rest"
    and ws: "ws = (b0, min (b0 + ?sz) latest) # rest"
    by (subst (asm) scan_windows.simps) (auto split: bind_splits)
  have eq: "b0 + ?sz + 1 + int k * (?sz + 1) = b0 + int (Suc k) * (?sz + 1)"
    by (simp add: algebra_simps)
  with Suc.prems(2) have "b0 + ?sz + 1 + int k * (?sz + 1) \<le> latest" by simp
  from Suc.IH[OF rest this] show ?case unfolding ws eq by simp
qed

lemma scan_window_Break:
  assumes "getAddress env (address c) = Inr addr"
    and "getLogsWithRetry env (window_filter cfg addr latest b) 6 (st_world st) = (Failed err, w1)"
  shows "scan_window cfg env c latest b st = Break (st\<lparr>st_world := w1\<rparr>)"
  using assms by (simp add: scan_window_def window_filter_def Let_def)

lemma scan_break_run:
  assumes cur: "scan_cursors (ensureCursor (datetime_now env (length (getLogs_calls w))) db
              (cursorKey_of c) (default_start_block c)) (cursorKey_of c) = Some cur"
    and head: "getBlockNumber env = Inr latest"
    and b0: "resume_fromBlock cfg (start_block cur) (last_scanned_block cur) = b0"
    and k: "loop_head cfg env c latest k b0
           \<lparr>st_db = ensureCursor (datetime_now env (length (getLogs_calls w))) db
              (cursorKey_of c) (default_start_block c),
            st_world = w, lastGoodBlock = b0 - 1\<rparr> = Some (b, st)"
    and le: "b \<le> latest"
    and br: "scan_window cfg env c latest b st = Break st1"
  shows "scanLoanNftTransfers cfg env c (db, w) = Some (Returns (advance_cursor env c b0 st1))"
proof -
  have "b0 \<le> latest" by (rule loop_head_le[OF k le])
  moreover have "scan_loop cfg env c latest b0
           \<lparr>st_db = ensureCursor (datetime_now env (length (getLogs_calls w))) db
              (cursorKey_of c) (default_start_block c),
            st_world = w, lastGoodBlock = b0 - 1\<rparr> = Some (Returns st1)"
    using loop_head_scan_loop[OF k] scan_loop_Break[OF le br] by simp
  ultimately show ?thesis
    using scan_run[OF cur head b0] by fastforce
qed

lemma loop_head_cursors:
  "loop_head cfg env c latest k b0 st0 = Some (b, st) \<Longrightarrow>
   scan_cursors (st_db st) = scan_cursors (st_db st0)"
proof (induction k arbitrary: b0 st0)
  case 0
  then show ?case by simp
next
  case (Suc k)
  from Suc.prems obtain st1 where
    w: "scan_window cfg env c latest b0 st0 = Continue st1"
    and h: "loop_head cfg env c latest k (b0 + FLR_SCAN_BLOCKS cfg + 1) st1 = Some (b, st)"
    by (auto split: if_splits loop_step.splits)
  from Suc.IH[OF h] scan_window_cursors(1)[OF w] show ?case by simp
qed

lemma scan_loop_lastGood_mono:
  assumes "scan_loop cfg env c latest b st = Some r"
  shows "lastGoodBlock st < b \<longrightarrow> 0 \<le> FLR_SCAN_BLOCKS cfg \<longrightarrow>
           lastGoodBlock st \<le> lastGoodBlock (final_state r)"
proof (rule scan_loop.raw_induct[where P = "\<lambda>cfg env c latest b st r.
          lastGoodBlock st < b \<longrightarrow> 0 \<le> FLR_SCAN_BLOCKS cfg \<longrightarrow>
          lastGoodBlock st \<le> lastGoodBlock (final_state r)", OF _ assms])
  fix loop cfg env c latest b st r
  assume IH: "\<And>cfg env c latest b st r. loop cfg env c latest b st = Some r \<Longrightarrow>
          lastGoodBlock st < b \<longrightarrow> 0 \<le> FLR_SCAN_BLOCKS cfg \<longrightarrow>
          lastGoodBlock st \<le> lastGoodBlock (final_state r)"
    and eq: "(if b \<le> latest
      then case scan_window cfg env c latest b st of
           Continue st1 \<Rightarrow> loop cfg env c latest (b + FLR_SCAN_BLOCKS cfg + 1) st1
           | Break st1 \<Rightarrow> Some (Returns st1)
           | Throw e st1 \<Rightarrow> Some (Throws e st1)
      else Some (Returns st)) = Some r"
  show "lastGoodBlock st < b \<longrightarrow> 0 \<le> FLR_SCAN_BLOCKS cfg \<longrightarrow>
          lastGoodBlock st \<le> lastGoodBlock (final_state r)"
  proof (intro impI)
    assume lt: "lastGoodBlock st < b" and sz: "0 \<le> FLR_SCAN_BLOCKS cfg"
    show "lastGoodBlock st \<le> lastGoodBlock (final_state r)"
    proof (cases "b \<le> latest")
      case False
      with eq show ?thesis by (auto simp: final_state_def)
    next
      case True
      show ?thesis
      proof (cases "scan_window cfg env c latest b st")
        case (Continue st1)
        with True eq have l: "loop cfg env c latest (b + FLR_SCAN_BLOCKS cfg + 1) st1 = Some r"
          by simp
        have g: "lastGoodBlock st1 = min (b + FLR_SCAN_BLOCKS cfg) latest"
          by (rule scan_window_lastGood(1)[OF Continue])
        then have "lastGoodBlock st1 < b + FLR_SCAN_BLOCKS cfg + 1" by simp
        with IH[OF l] sz have "lastGoodBlock st1 \<le> lastGoodBlock (final_state r)" by simp
        moreover have "lastGoodBlock st \<le> lastGoodBlock st1" using g lt sz True by simp
        ultimately show ?thesis by simp
      next
        case (Break st1)
        with True eq scan_window_lastGood(2)[OF Break] show ?thesis
          by (auto simp: final_state_def)
      next
        case (Throw e st1)
        then have "lastGoodBlock st1 = lastGoodBlock st"
          by (auto simp: scan_window_def Let_def
              split: sum.splits prod.splits fetch_result.splits if_splits)
        with True eq Throw show ?thesis by (auto simp: final_state_def)
      qed
    qed
  qed
qed

lemma scan_window_Break_fetch:
  assumes "scan_window cfg env c latest b st = Break st1"
  shows "\<exists>addr err w1. getAddress env (address c) = Inr addr
           \<and> getLogsWithRetry env (window_filter cfg addr latest b) 6 (st_world st) = (Failed err, w1)"
proof (cases "getAddress env (address c)")
  case (Inl e)
  with assms show ?thesis by (simp add: scan_window_def Let_def)
next
  case (Inr addr)
  obtain res w1 where g: "getLogsWithRetry env (window_filter cfg addr latest b) 6 (st_world st) = (res, w1)"
    by (cases "getLogsWithRetry env (window_filter cfg addr latest b) 6 (st_world st)") auto
  show ?thesis
  proof (cases res)
    case (Failed err)
    with Inr g show ?thesis by blast
  next
    case (Ok lgs)
    with assms Inr g show ?thesis
      by (auto simp: scan_window_def window_filter_def Let_def split: prod.splits sum.splits)
  qed
qed

lemma loop_head_step:
  "loop_head cfg env c latest k b0 st0 = Some (b, st) \<Longrightarrow> b \<le> latest \<Longrightarrow>
   scan_window cfg env c latest b st = Continue st1 \<Longrightarrow>
   loop_head cfg env c latest (Suc k) b0 st0 = Some (b + FLR_SCAN_BLOCKS cfg + 1, st1)"
proof (induction k arbitrary: b0 st0)
  case 0
  then show ?case by simp
next
  case (Suc k)
  from Suc.prems(1) have le: "b0 \<le> latest" by (simp split: if_splits)
  from Suc.prems(1) le obtain s1 where
    w: "scan_window cfg env c latest b0 st0 = Continue s1"
    and h: "loop_head cfg env c latest k (b0 + FLR_SCAN_BLOCKS cfg + 1) s1 = Some (b, st)"
    by (auto split: loop_step.splits)
  from Suc.IH[OF h Suc.prems(2,3)] le w show ?case by simp
qed

lemma scan_loop_all_fetched:
  assumes sz: "0 \<le> FLR_SCAN_BLOCKS cfg"
    and nb: "\<forall>k b st st1. loop_head cfg env c latest k b0 st0 = Some (b, st) \<and> b \<le> latest \<longrightarrow>
              scan_window cfg env c latest b st \<noteq> Break st1"
  shows "loop_head cfg env c latest k b0 st0 = Some (b, st) \<Longrightarrow> b \<le> latest \<Longrightarrow>
         scan_loop cfg env c latest b st = Some (Returns st') \<Longrightarrow> lastGoodBlock st' = latest"
proof (induction "nat (latest - b)" arbitrary: k b st rule: less_induct)
  case less
  let ?sz = "FLR_SCAN_BLOCKS cfg"
  show ?case
  proof (cases "scan_window cfg env c latest b st")
    case (Break st1)
    with nb less.prems(1,2) show ?thesis by blast
  next
    case (Throw e st1)
    from scan_loop_Throw[OF less.prems(2) Throw] less.prems(3) show ?thesis by simp
  next
    case (Continue st1)
    note step = scan_loop_Continue[OF less.prems(2) Continue]
    note hd = loop_head_step[OF less.prems(1,2) Continue]
    show ?thesis
    proof (cases "b + ?sz + 1 \<le> latest")
      case True
      have m: "nat (latest - (b + ?sz + 1)) < nat (latest - b)" using sz True by simp
      from less.prems(3) step
      have "scan_loop cfg env c latest (b + ?sz + 1) st1 = Some (Returns st')" by simp
      from less.hyps[OF m hd True this] show ?thesis .
    next
      case False
      then have "scan_loop cfg env c latest (b + ?sz + 1) st1 = Some (Returns st1)"
        by (rule scan_loop_exit)
      with less.prems(3) step have "st' = st1" by simp
      moreover have "lastGoodBlock st1 = min (b + ?sz) latest"
        by (rule scan_window_lastGood(1)[OF Continue])
      ultimately show ?thesis using False by simp
    qed
  qed
qed

lemma scan_loop_first_window:
  assumes "0 \<le> FLR_SCAN_BLOCKS cfg" and "b0 \<le> latest" and "lastGoodBlock st0 < b0"
    and "scan_loop cfg env c latest b0 st0 = Some (Returns st')"
  shows "lastGoodBlock st' = lastGoodBlock st0
         \<or> min (b0 + FLR_SCAN_BLOCKS cfg) latest \<le> lastGoodBlock st'"
proof (cases "scan_window cfg env c latest b0 st0")
  case (Break st1)
  from scan_loop_Break[OF assms(2) Break] assms(4) scan_window_lastGood(2)[OF Break]
  show ?thesis by simp
next
  case (Throw e st1)
  from scan_loop_Throw[OF assms(2) Throw] assms(4) show ?thesis by simp
next
  case (Continue st1)
  have g: "lastGoodBlock st1 = min (b0 + FLR_SCAN_BLOCKS cfg) latest"
    by (rule scan_window_lastGood(1)[OF Continue])
  have l: "scan_loop cfg env c latest (b0 + FLR_SCAN_BLOCKS cfg + 1) st1 = Some (Returns st')"
    using scan_loop_Continue[OF assms(2) Continue] assms(4) by simp
  have "lastGoodBlock st1 < b0 + FLR_SCAN_BLOCKS cfg + 1" using g by simp
  with scan_loop_lastGood_mono[OF l] assms(1)
  have "lastGoodBlock st1 \<le> lastGoodBlock st'" by (simp add: final_state_def)
  with g show ?thesis by simp
qed

lemma retry_once_fetches:
  "\<exists>lgs w1. getLogsWithRetry (env_retry_once h) flt 6 w = (Ok lgs, w1)"
proof (cases "getLogs_calls w = []")
  case True
  have r: "shouldRetry (Error ''rate limit exceeded'')"
    by (simp add: shouldRetry_def isRateLimitError_def toLowerCase_def lowerChar_def)
  show ?thesis
    using True r
    by (simp add: getLogsWithRetry_def getLogsWithRetry_loop.simps[of _ _ 6 0]
        getLogsWithRetry_loop.simps[of _ _ 6 "Suc 0"] call_getLogs_def env_retry_once_def
        sleep_def Let_def)
next
  case False
  then show ?thesis
    by (simp add: getLogsWithRetry_def getLogsWithRetry_loop.simps[of _ _ 6 0]
        call_getLogs_def env_retry_once_def)
qed

lemma retry_once_run:
  "scanLoanNftTransfers cfg0 (env_retry_once 2000) c0 (db_at 1000, w0) =
     Some (Returns (db_after 2000,
       \<lparr>getLogs_calls = [window_filter cfg0 ''0xabc'' 2000 995,
                        window_filter cfg0 ''0xabc'' 2000 995,
                        window_filter cfg0 ''0xabc'' 2000 1495,
                        window_filter cfg0 ''0xabc'' 2000 1995],
        sleeps = [750], getBlock_calls = []\<rparr>))"
proof -
  have r: "shouldRetry (Error ''rate limit exceeded'')"
    by (simp add: shouldRetry_def isRateLimitError_def toLowerCase_def lowerChar_def)
  have p: "parseRetryAfterMs (Error ''rate limit exceeded'') = None"
    by (simp add: parseRetryAfterMs_def match_retry_at_def toLowerCase_def lowerChar_def)
  show ?thesis
    by (simp add: scanLoanNftTransfers_def ensureCursor_def db_at_def env_retry_once_def cfg0_def
        resume_fromBlock_def scan_loop.simps scan_window_def getLogsWithRetry_def
        getLogsWithRetry_loop.simps call_getLogs_def w0_def c0_def resolveBlockTimestamps_Nil
        advance_cursor_def updateCursor_def window_filter_def cursor_row_at_def Let_def
        db_after_def r p sleep_def)
qed

lemma refused_second_run:
  "scanLoanNftTransfers cfg0 (env_first_only 2000) c0 (db_at 1000, w0) =
     Some (Returns (db_after 1494,
       \<lparr>getLogs_calls = [window_filter cfg0 ''0xabc'' 2000 995,
                        window_filter cfg0 ''0xabc'' 2000 1495],
        sleeps = [], getBlock_calls = []\<rparr>))"
  by (simp add: scanLoanNftTransfers_def ensureCursor_def db_at_def env_first_only_def cfg0_def
        resume_fromBlock_def scan_loop.simps scan_window_def getLogsWithRetry_def
        getLogsWithRetry_loop.simps call_getLogs_def w0_def c0_def resolveBlockTimestamps_Nil
        advance_cursor_def updateCursor_def window_filter_def cursor_row_at_def Let_def
        db_after_def not_retry_invalid)

section \<open>Log fetcher: bounded retries\<close>

lemma backoff_at_Suc: "min (backoff_at i * 2) 10000 = backoff_at (Suc i)"
  by simp

lemma upt_front: "a < b \<Longrightarrow> [a ..< b] = a # [Suc a ..< b]"
  by (simp add: upt_rec)

lemma getLogsWithRetry_loop_retryable:
  assumes "\<forall>i. a \<le> i \<and> i < m \<longrightarrow> getLogs env (n0 + i) flt = Inl (errs i) \<and> shouldRetry (errs i)"
    and "a < m" and "length (getLogs_calls w) = n0 + a"
  shows "getLogsWithRetry_loop env flt m a (backoff_at a) w =
           (Failed (errs (m - 1)),
            w\<lparr>getLogs_calls := getLogs_calls w @ replicate (m - a) flt,
              sleeps := sleeps w @ map (\<lambda>i. wait_after (errs i) i) [a ..< m - 1]\<rparr>)"
  using assms
proof (induction "m - a" arbitrary: a w)
  case 0
  then show ?case by simp
next
  case (Suc k)
  have here: "getLogs env (n0 + a) flt = Inl (errs a)" "shouldRetry (errs a)"
    using Suc.prems by auto
  show ?case
  proof (cases "Suc a \<ge> m")
    case True
    with Suc.prems have "m = Suc a" by simp
    then show ?thesis
      using here Suc.prems(3)
      by (subst getLogsWithRetry_loop.simps) (simp add: call_getLogs_def Let_def)
  next
    case False
    let ?w1 = "sleep (wait_after (errs a) a) (w\<lparr>getLogs_calls := getLogs_calls w @ [flt]\<rparr>)"
    have k: "k = m - Suc a" using Suc.hyps(2) by simp
    have len: "length (getLogs_calls ?w1) = n0 + Suc a"
      using Suc.prems(3) by (simp add: sleep_def)
    have rest: "\<forall>i. Suc a \<le> i \<and> i < m \<longrightarrow>
                  getLogs env (n0 + i) flt = Inl (errs i) \<and> shouldRetry (errs i)"
      using Suc.prems(1) by simp
    from False have lt: "Suc a < m" by simp
    have IH: "getLogsWithRetry_loop env flt m (Suc a) (backoff_at (Suc a)) ?w1 =
           (Failed (errs (m - 1)),
            ?w1\<lparr>getLogs_calls := getLogs_calls ?w1 @ replicate (m - Suc a) flt,
              sleeps := sleeps ?w1 @ map (\<lambda>i. wait_after (errs i) i) [Suc a ..< m - 1]\<rparr>)"
      by (rule Suc.hyps(1)[OF k rest lt len])
    have step: "getLogsWithRetry_loop env flt m a (backoff_at a) w =
        getLogsWithRetry_loop env flt m (Suc a) (backoff_at (Suc a)) ?w1"
      using here Suc.prems(2,3) False
      by (subst getLogsWithRetry_loop.simps)
         (auto simp add: call_getLogs_def wait_after_def Let_def)
    have rep: "replicate (m - a) flt = flt # replicate (m - Suc a) flt"
      using lt by (simp add: Suc_diff_Suc replicate_Suc[symmetric] del: replicate_Suc)
    have up: "[a ..< m - Suc 0] = a # [Suc a ..< m - Suc 0]"
      using lt by (intro upt_front) simp
    show ?thesis
      unfolding step IH by (simp add: sleep_def rep up)
  qed
qed

text \<open>
  Claim C6. When each of the next \<open>maxAttempts\<close> answers of the provider is a retryable
  error, the fetcher calls the provider exactly \<open>maxAttempts\<close> times and returns a
  failure (the last error; with no attempt allowed, the error "exhausted retries"). Between
  two calls it sleeps once: for the retry-after hint of the error when it has one, else for
  \<open>backoff_at i\<close>, which is 750 ms at first and doubles after each failure up to
  10000 ms. The loop is a total function: it always ends.
\<close>

theorem retryable_errors_exhaust:
  assumes "\<forall>i < maxAttempts. getLogs env (length (getLogs_calls w) + i) flt = Inl (errs i)
             \<and> shouldRetry (errs i)"
  shows "getLogsWithRetry env flt maxAttempts w =
           (Failed (if maxAttempts = 0 then Error ''exhausted retries'' else errs (maxAttempts - 1)),
            w\<lparr>getLogs_calls := getLogs_calls w @ replicate maxAttempts flt,
              sleeps := sleeps w @ map (\<lambda>i. wait_after (errs i) i) [0 ..< maxAttempts - 1]\<rparr>)"
proof (cases "maxAttempts = 0")
  case True
  then show ?thesis by (simp add: getLogsWithRetry_def getLogsWithRetry_loop.simps)
next
  case False
  have "getLogsWithRetry_loop env flt maxAttempts 0 (backoff_at 0) w =
           (Failed (errs (maxAttempts - 1)),
            w\<lparr>getLogs_calls := getLogs_calls w @ replicate (maxAttempts - 0) flt,
              sleeps := sleeps w @ map (\<lambda>i. wait_after (errs i) i) [0 ..< maxAttempts - 1]\<rparr>)"
    using assms False
    by (intro getLogsWithRetry_loop_retryable[where ?n0.0 = "length (getLogs_calls w)"]) auto
  then show ?thesis using False by (simp add: getLogsWithRetry_def)
qed

lemma shouldRetry_throttled: "shouldRetry (throttled n)"
  by (simp add: throttled_def shouldRetry_def isRateLimitError_def toLowerCase_def lowerChar_def)

lemma wait_after_throttled:
  "wait_after (throttled n) i = (if n = 1 then 2000 else backoff_at i)"
  by (simp add: wait_after_def throttled_def parseRetryAfterMs_def match_retry_at_def
      toLowerCase_def lowerChar_def isSpace_def isDigit_def digitsValue_def digitValue_def
      js_finite_def upt_rec)

theorem retryable_errors_exhaust_witness:
  "getLogsWithRetry env_throttled flt0 6 w0 =
     (Failed (Error ''rate limit exceeded''),
      \<lparr>getLogs_calls = [flt0, flt0, flt0, flt0, flt0, flt0],
       sleeps = [750, 2000, 3000, 6000, 10000],
       getBlock_calls = []\<rparr>)"
proof -
  have h: "\<forall>i < (6::nat). getLogs env_throttled (length (getLogs_calls w0) + i) flt0 = Inl (throttled i)
             \<and> shouldRetry (throttled i)"
    by (simp add: env_throttled_def w0_def shouldRetry_throttled)
  have six: "[0 ..< 5] = [0, 1, 2, 3, 4::nat]" by (simp add: upt_rec)
  have b: "backoff_at 2 = 3000" "backoff_at 3 = 6000" "backoff_at 4 = 10000"
    by (simp_all add: eval_nat_numeral)
  have sl: "map (\<lambda>i. wait_after (throttled i) i) [0 ..< 5] = [750, 2000, 3000, 6000, 10000]"
    by (simp add: six wait_after_throttled b)
  have r: "throttled 5 = Error ''rate limit exceeded''" by (simp add: throttled_def)
  have rp: "replicate 6 flt0 = [flt0, flt0, flt0, flt0, flt0, flt0]"
    by (simp add: numeral_eq_Suc)
  show ?thesis
    using retryable_errors_exhaust[OF h] by (simp add: w0_def sl r rp)
qed

text \<open>
  Claim C7. When the first answer of the provider is an error that is not retryable (its
  message has no rate-limit text, no throttling code and no retry-after hint), the fetcher
  returns the failure after that one call: the trace grows by one call and by no sleep.
\<close>

theorem nonretryable_fails_immediately:
  assumes "getLogs env (length (getLogs_calls w)) flt = Inl err"
    and "\<not> shouldRetry err" and "0 < maxAttempts"
  shows "getLogsWithRetry env flt maxAttempts w =
           (Failed err, w\<lparr>getLogs_calls := getLogs_calls w @ [flt]\<rparr>)"
  using assms
  by (simp add: getLogsWithRetry_def getLogsWithRetry_loop.simps call_getLogs_def)

theorem nonretryable_fails_immediately_witness:
  "getLogsWithRetry env_refusing flt0 6 w0 =
     (Failed (Error ''invalid block range''),
      \<lparr>getLogs_calls = [flt0], sleeps = [], getBlock_calls = []\<rparr>)"
proof -
  have h1: "getLogs env_refusing (length (getLogs_calls w0)) flt0 = Inl (Error ''invalid block range'')"
    by (simp add: env_refusing_def)
  have h2: "\<not> shouldRetry (Error ''invalid block range'')"
    by (simp add: shouldRetry_def isRateLimitError_def toLowerCase_def lowerChar_def
        parseRetryAfterMs_def match_retry_at_def)
  have h3: "0 < (6::nat)" by simp
  show ?thesis
    using nonretryable_fails_immediately[OF h1 h2 h3] by (simp add: w0_def)
qed

section \<open>Window scheduling\<close>

lemma scan_windows_tiling:
  assumes "0 \<le> FLR_SCAN_BLOCKS cfg" and "b \<le> h + 1"
  shows "\<exists>ws. scan_windows cfg b h = Some ws \<and> tiling b ws h
            \<and> (\<forall>w \<in> set ws. snd w = min (fst w + FLR_SCAN_BLOCKS cfg) h)"
  using assms(2)
proof (induction "nat (h + 1 - b)" arbitrary: b rule: less_induct)
  case less
  let ?sz = "FLR_SCAN_BLOCKS cfg"
  show ?case
  proof (cases "b \<le> h")
    case False
    with less.prems have "b = h + 1" by simp
    then show ?thesis by (simp add: scan_windows.simps)
  next
    case True
    show ?thesis
    proof (cases "b + ?sz + 1 \<le> h + 1")
      case True
      have "nat (h + 1 - (b + ?sz + 1)) < nat (h + 1 - b)"
        using assms(1) \<open>b \<le> h\<close> by simp
      from less.hyps[OF this True]
      obtain ws where ws: "scan_windows cfg (b + ?sz + 1) h = Some ws" "tiling (b + ?sz + 1) ws h"
        "\<forall>w \<in> set ws. snd w = min (fst w + ?sz) h" by blast
      have "scan_windows cfg b h = Some ((b, min (b + ?sz) h) # ws)"
        using \<open>b \<le> h\<close> ws(1) by (subst scan_windows.simps) simp
      moreover have "min (b + ?sz) h = b + ?sz" using True by simp
      ultimately show ?thesis using ws assms(1) True by (auto simp: add.assoc)
    next
      case False
      then have "scan_windows cfg (b + ?sz + 1) h = Some []"
        by (subst scan_windows.simps) simp
      then have "scan_windows cfg b h = Some [(b, min (b + ?sz) h)]"
        using \<open>b \<le> h\<close> by (subst scan_windows.simps) simp
      moreover have "min (b + ?sz) h = h" using False by simp
      ultimately show ?thesis using \<open>b \<le> h\<close> by auto
    qed
  qed
qed

lemma tiling_bounds: "tiling a ws h \<Longrightarrow> w \<in> set ws \<Longrightarrow> a \<le> fst w \<and> fst w \<le> snd w \<and> snd w \<le> h"
  by (induction ws arbitrary: a) fastforce+

lemma tiling_union: "tiling a ws h \<Longrightarrow> (\<Union>w \<in> set ws. {fst w .. snd w}) = {a .. h}"
proof (induction ws arbitrary: a)
  case Nil
  then show ?case by simp
next
  case (Cons w ws)
  then have "(\<Union>w \<in> set ws. {fst w .. snd w}) = {snd w + 1 .. h}" by simp
  moreover have "{fst w .. snd w} \<union> {snd w + 1 .. h} = {a .. h}"
    using Cons.prems by auto
  ultimately show ?case by simp
qed

lemma tiling_ordered:
  "tiling a ws h \<Longrightarrow> i < j \<Longrightarrow> j < length ws \<Longrightarrow> snd (ws ! i) < fst (ws ! j)"
proof (induction ws arbitrary: a i j)
  case Nil
  then show ?case by simp
next
  case (Cons w ws)
  obtain j' where j: "j = Suc j'" using Cons.prems(2) by (cases j) auto
  have t: "tiling (snd w + 1) ws h" using Cons.prems(1) by simp
  show ?case
  proof (cases i)
    case 0
    have "ws ! j' \<in> set ws" using Cons.prems(3) j by simp
    from tiling_bounds[OF t this] show ?thesis using 0 j by simp
  next
    case (Suc i')
    with Cons.IH[OF t, of i' j'] Cons.prems j show ?thesis by simp
  qed
qed

lemma tiling_contiguous:
  "tiling a ws h \<Longrightarrow> Suc i < length ws \<Longrightarrow> fst (ws ! Suc i) = snd (ws ! i) + 1"
proof (induction ws arbitrary: a i)
  case Nil
  then show ?case by simp
next
  case (Cons w ws)
  have t: "tiling (snd w + 1) ws h" using Cons.prems(1) by simp
  show ?case
  proof (cases i)
    case 0
    then show ?thesis using t Cons.prems(2) by (cases ws) auto
  next
    case (Suc i')
    with Cons.IH[OF t, of i'] Cons.prems show ?thesis by simp
  qed
qed

text \<open>The bound on the window size is needed: with the setting \<open>-1\<close> the loop makes no progress.\<close>

lemma scan_windows_stuck:
  assumes "FLR_SCAN_BLOCKS cfg = - 1" and "b \<le> h"
  shows "scan_windows cfg b h = None"
proof (cases "scan_windows cfg b h")
  case (Some ws)
  have "\<not> (FLR_SCAN_BLOCKS cfg = - 1 \<and> b \<le> h)"
  proof (rule scan_windows.raw_induct[where P = "\<lambda>cfg b h ws. \<not> (FLR_SCAN_BLOCKS cfg = - 1 \<and> b \<le> h)",
        OF _ Some])
    fix loop cfg b h ws
    assume IH: "\<And>cfg b h ws. loop cfg b h = Some ws \<Longrightarrow> \<not> (FLR_SCAN_BLOCKS cfg = - 1 \<and> b \<le> h)"
      and eq: "(if b \<le> h
          then Option.bind (loop cfg (b + FLR_SCAN_BLOCKS cfg + 1) h)
                 (\<lambda>rest. Some ((b, min (b + FLR_SCAN_BLOCKS cfg) h) # rest))
          else Some []) = Some ws"
    show "\<not> (FLR_SCAN_BLOCKS cfg = - 1 \<and> b \<le> h)"
    proof
      assume a: "FLR_SCAN_BLOCKS cfg = - 1 \<and> b \<le> h"
      with eq obtain rest where "loop cfg b h = Some rest"
        by (auto split: bind_splits)
      from IH[OF this] a show False by simp
    qed
  qed
  with assms show ?thesis by simp
qed simp

text \<open>
  Claim C2. For a window size that is not negative and a start not beyond the head, the
  loop header yields a finite list of windows \<open>[b, min(b + size, head)]\<close>: the union of
  the windows is exactly the range from the start to the head, an earlier window lies
  wholly before a later one, each window begins one block after its predecessor ends, and
  none is empty. With a start beyond the head there is no window, and
  \<^verbatim>\<open>scanLoanNftTransfers\<close> returns at once, with no request sent and the cursor as it was.
  The windows are those of the loop itself: when every request is answered (here with no
  logs), the loop requests exactly these ranges, in this order, and ends with the marker
  \<open>lastGoodBlock\<close> at the head.
  The window loops of \<^verbatim>\<open>scanPool\<close> and \<^verbatim>\<open>scanTroveManagerEvents\<close> have the same header.
\<close>

theorem windows_tile:
  assumes "0 \<le> FLR_SCAN_BLOCKS cfg"
  shows "(from_block \<le> head_block \<longrightarrow>
           (\<exists>ws. scan_windows cfg from_block head_block = Some ws
              \<and> (\<Union>w \<in> set ws. {fst w .. snd w}) = {from_block .. head_block}
              \<and> (\<forall>i j. i < j \<and> j < length ws \<longrightarrow> snd (ws ! i) < fst (ws ! j))
              \<and> (\<forall>i. Suc i < length ws \<longrightarrow> fst (ws ! Suc i) = snd (ws ! i) + 1)
              \<and> (\<forall>w \<in> set ws. fst w \<le> snd w
                    \<and> snd w = min (fst w + FLR_SCAN_BLOCKS cfg) head_block)))
       \<and> (from_block > head_block \<longrightarrow> scan_windows cfg from_block head_block = Some [])
       \<and> (scan_cursors (ensureCursor (datetime_now env (length (getLogs_calls w))) db
                 (cursorKey_of c) (default_start_block c)) (cursorKey_of c) = Some cur
            \<and> getBlockNumber env = Inr head_block
            \<and> resume_fromBlock cfg (start_block cur) (last_scanned_block cur) > head_block \<longrightarrow>
          scanLoanNftTransfers cfg env c (db, w) =
            Some (Returns (ensureCursor (datetime_now env (length (getLogs_calls w))) db
                 (cursorKey_of c) (default_start_block c), w)))
       \<and> (getAddress env (address c) = Inr addr \<and> (\<forall>n f. getLogs env n f = Inr [])
            \<and> from_block \<le> head_block \<longrightarrow>
          (\<exists>ws w'. scan_windows cfg from_block head_block = Some ws
             \<and> scan_loop cfg env c head_block from_block st =
                 Some (Returns \<lparr>st_db = st_db st, st_world = w', lastGoodBlock = head_block\<rparr>)
             \<and> fetched_ranges w' = fetched_ranges (st_world st) @ ws))"
proof (intro conjI impI)
  assume le: "from_block \<le> head_block"
  then have "from_block \<le> head_block + 1" by simp
  from scan_windows_tiling[OF assms this]
  obtain ws where ws: "scan_windows cfg from_block head_block = Some ws" "tiling from_block ws head_block"
    "\<forall>w \<in> set ws. snd w = min (fst w + FLR_SCAN_BLOCKS cfg) head_block" by blast
  show "\<exists>ws. scan_windows cfg from_block head_block = Some ws
              \<and> (\<Union>w \<in> set ws. {fst w .. snd w}) = {from_block .. head_block}
              \<and> (\<forall>i j. i < j \<and> j < length ws \<longrightarrow> snd (ws ! i) < fst (ws ! j))
              \<and> (\<forall>i. Suc i < length ws \<longrightarrow> fst (ws ! Suc i) = snd (ws ! i) + 1)
              \<and> (\<forall>w \<in> set ws. fst w \<le> snd w
                    \<and> snd w = min (fst w + FLR_SCAN_BLOCKS cfg) head_block)"
  proof (intro exI[of _ ws] conjI allI impI ballI)
    show "scan_windows cfg from_block head_block = Some ws" by (rule ws(1))
    show "(\<Union>w \<in> set ws. {fst w .. snd w}) = {from_block .. head_block}"
      by (rule tiling_union[OF ws(2)])
    show "snd (ws ! i) < fst (ws ! j)" if "i < j \<and> j < length ws" for i j
      using tiling_ordered[OF ws(2)] that by blast
    show "fst (ws ! Suc i) = snd (ws ! i) + 1" if "Suc i < length ws" for i
      using tiling_contiguous[OF ws(2) that] .
    show "fst w \<le> snd w" if "w \<in> set ws" for w
      using tiling_bounds[OF ws(2) that] by simp
    show "snd w = min (fst w + FLR_SCAN_BLOCKS cfg) head_block" if "w \<in> set ws" for w
      using ws(3) that by blast
  qed
next
  assume "head_block < from_block"
  then show "scan_windows cfg from_block head_block = Some []"
    by (subst scan_windows.simps) simp
next
  assume h: "scan_cursors (ensureCursor (datetime_now env (length (getLogs_calls w))) db
                 (cursorKey_of c) (default_start_block c)) (cursorKey_of c) = Some cur
            \<and> getBlockNumber env = Inr head_block
            \<and> resume_fromBlock cfg (start_block cur) (last_scanned_block cur) > head_block"
  show "scanLoanNftTransfers cfg env c (db, w) =
            Some (Returns (ensureCursor (datetime_now env (length (getLogs_calls w))) db
                 (cursorKey_of c) (default_start_block c), w))"
    using h by (intro scan_skipped[where cur = cur and head = head_block]) auto
next
  assume h: "getAddress env (address c) = Inr addr \<and> (\<forall>n f. getLogs env n f = Inr [])
            \<and> from_block \<le> head_block"
  then have "from_block \<le> head_block + 1" by simp
  from scan_loop_quiet[OF assms _ _ this, of env c addr st] h
  obtain ws w' where ws: "scan_windows cfg from_block head_block = Some ws"
    and run: "scan_loop cfg env c head_block from_block st =
               Some (Returns \<lparr>st_db = st_db st, st_world = w',
                       lastGoodBlock = (if ws = [] then lastGoodBlock st else head_block)\<rparr>)"
    and fr: "fetched_ranges w' = fetched_ranges (st_world st) @ ws"
    by blast
  have "ws \<noteq> []"
    using ws h by (subst (asm) scan_windows.simps) (auto split: bind_splits)
  with ws run fr
  show "\<exists>ws w'. scan_windows cfg from_block head_block = Some ws
             \<and> scan_loop cfg env c head_block from_block st =
                 Some (Returns \<lparr>st_db = st_db st, st_world = w', lastGoodBlock = head_block\<rparr>)
             \<and> fetched_ranges w' = fetched_ranges (st_world st) @ ws"
    by auto
qed

theorem windows_tile_witness:
  "(\<exists>ws. scan_windows cfg0 995 2000 = Some ws
      \<and> (\<Union>w \<in> set ws. {fst w .. snd w}) = {995 .. 2000}
      \<and> (\<forall>i j. i < j \<and> j < length ws \<longrightarrow> snd (ws ! i) < fst (ws ! j))
      \<and> (\<forall>i. Suc i < length ws \<longrightarrow> fst (ws ! Suc i) = snd (ws ! i) + 1)
      \<and> (\<forall>w \<in> set ws. fst w \<le> snd w \<and> snd w = min (fst w + 499) 2000))
   \<and> scan_windows cfg0 2995 2000 = Some []
   \<and> scanLoanNftTransfers cfg0 (env_quiet 2000) c0 (db_at 3000, w0) = Some (Returns (db_at 3000, w0))
   \<and> (\<exists>ws w'. scan_windows cfg0 995 2000 = Some ws
         \<and> scan_loop cfg0 (env_quiet 2000) c0 2000 995
               \<lparr>st_db = db_at 1000, st_world = w0, lastGoodBlock = 994\<rparr> =
             Some (Returns \<lparr>st_db = db_at 1000, st_world = w', lastGoodBlock = 2000\<rparr>)
         \<and> fetched_ranges w' = ws)"
proof -
  have h0: "0 \<le> FLR_SCAN_BLOCKS cfg0" by (simp add: cfg0_def)
  have e: "ensureCursor (datetime_now (env_quiet 2000) (length (getLogs_calls w0))) (db_at 3000)
             (cursorKey_of c0) (default_start_block c0) = db_at 3000"
    by (simp add: ensureCursor_def db_at_def)
  have h1: "scan_cursors (ensureCursor (datetime_now (env_quiet 2000) (length (getLogs_calls w0)))
              (db_at 3000) (cursorKey_of c0) (default_start_block c0)) (cursorKey_of c0)
            = Some \<lparr>start_block = 100, last_scanned_block = 3000, updated_at = ''2025-12-31 00:00:00''\<rparr>
          \<and> getBlockNumber (env_quiet 2000) = Inr 2000
          \<and> resume_fromBlock cfg0
               (start_block \<lparr>start_block = 100, last_scanned_block = 3000, updated_at = ''2025-12-31 00:00:00''\<rparr>)
               (last_scanned_block \<lparr>start_block = 100, last_scanned_block = 3000, updated_at = ''2025-12-31 00:00:00''\<rparr>)
               > 2000"
    unfolding e by (simp add: db_at_def env_quiet_def resume_fromBlock_def cfg0_def)
  have a: "(995::int) \<le> 2000" by simp
  note t1 = windows_tile[OF h0, where from_block = 995 and head_block = 2000, THEN conjunct1, rule_format, OF a]
  note t2 = windows_tile[OF h0, where from_block = 2995 and head_block = 2000, THEN conjunct2, THEN conjunct1]
  note t3 = windows_tile[OF h0, where head_block = 2000 and env = "env_quiet 2000" and w = w0
      and db = "db_at 3000" and c = c0, THEN conjunct2, THEN conjunct2, THEN conjunct1,
      rule_format, OF h1]
  have h4: "getAddress (env_quiet 2000) (address c0) = Inr ''0xabc''
      \<and> (\<forall>n f. getLogs (env_quiet 2000) n f = Inr []) \<and> (995::int) \<le> 2000"
    by (simp add: env_quiet_def c0_def)
  note t4 = windows_tile[OF h0, where head_block = 2000 and from_block = 995
      and env = "env_quiet 2000" and c = c0
      and st = "\<lparr>st_db = db_at 1000, st_world = w0, lastGoodBlock = 994\<rparr>",
      THEN conjunct2, THEN conjunct2, THEN conjunct2, THEN mp, OF h4]
  have f0: "fetched_ranges w0 = []" by (simp add: fetched_ranges_def w0_def)
  have p4: "\<exists>ws w'. scan_windows cfg0 995 2000 = Some ws
         \<and> scan_loop cfg0 (env_quiet 2000) c0 2000 995
               \<lparr>st_db = db_at 1000, st_world = w0, lastGoodBlock = 994\<rparr> =
             Some (Returns \<lparr>st_db = db_at 1000, st_world = w', lastGoodBlock = 2000\<rparr>)
         \<and> fetched_ranges w' = ws"
    using t4 by (simp add: f0)
  have p123: "(\<exists>ws. scan_windows cfg0 995 2000 = Some ws
      \<and> (\<Union>w \<in> set ws. {fst w .. snd w}) = {995 .. 2000}
      \<and> (\<forall>i j. i < j \<and> j < length ws \<longrightarrow> snd (ws ! i) < fst (ws ! j))
      \<and> (\<forall>i. Suc i < length ws \<longrightarrow> fst (ws ! Suc i) = snd (ws ! i) + 1)
      \<and> (\<forall>w \<in> set ws. fst w \<le> snd w \<and> snd w = min (fst w + 499) 2000))
   \<and> scan_windows cfg0 2995 2000 = Some []
   \<and> scanLoanNftTransfers cfg0 (env_quiet 2000) c0 (db_at 3000, w0) = Some (Returns (db_at 3000, w0))"
    using t1 t2 t3 unfolding e by (simp add: cfg0_def)
  show ?thesis using p123 p4 by blast
qed

lemma scenario_windows:
  "FLR_SCAN_BLOCKS cfg = 499 \<Longrightarrow>
   scan_windows cfg 995 2000 = Some [(995, 1494), (1495, 1994), (1995, 2000)]"
  by (simp add: scan_windows.simps)

text \<open>
  Claim C3. The block a run starts from is \<open>max(start_block, last_scanned_block - overlap)\<close>
  when \<open>last_scanned_block > 0\<close> and \<open>start_block\<close> otherwise. With the cursor at 1000, an
  overlap of 5, windows of 499 + 1 blocks, the head at 2000 and a start block not after 995,
  the start is 995 and the windows are [995, 1494], [1495, 1994], [1995, 2000]; a run of
  \<^verbatim>\<open>scanLoanNftTransfers\<close> in which every request is answered (here with no logs) sends
  its requests for exactly these three ranges. Line 182 of \<^verbatim>\<open>scanPool\<close> is the same
  expression.
\<close>

theorem resume_start:
  "resume_fromBlock cfg startBlock lastScanned =
     (if lastScanned > 0 then max startBlock (lastScanned - OVERLAP_BLOCKS cfg) else startBlock)
   \<and> (OVERLAP_BLOCKS cfg = 5 \<and> FLR_SCAN_BLOCKS cfg = 499 \<and> startBlock \<le> 995 \<longrightarrow>
        resume_fromBlock cfg startBlock 1000 = 995
        \<and> scan_windows cfg 995 2000 = Some [(995, 1494), (1495, 1994), (1995, 2000)])
   \<and> (OVERLAP_BLOCKS cfg = 5 \<and> FLR_SCAN_BLOCKS cfg = 499
        \<and> scan_cursors db (cursorKey_of c) = Some cur
        \<and> last_scanned_block cur = 1000 \<and> start_block cur \<le> 995
        \<and> getBlockNumber env = Inr 2000 \<and> getAddress env (address c) = Inr addr
        \<and> (\<forall>n f. getLogs env n f = Inr []) \<longrightarrow>
        (\<exists>db' w'. scanLoanNftTransfers cfg env c (db, w) = Some (Returns (db', w'))
           \<and> fetched_ranges w' =
               fetched_ranges w @ [(995, 1494), (1495, 1994), (1995, 2000)]))"
proof (intro conjI impI)
  show "resume_fromBlock cfg startBlock lastScanned =
     (if lastScanned > 0 then max startBlock (lastScanned - OVERLAP_BLOCKS cfg) else startBlock)"
    by (simp add: resume_fromBlock_def)
next
  assume "OVERLAP_BLOCKS cfg = 5 \<and> FLR_SCAN_BLOCKS cfg = 499 \<and> startBlock \<le> 995"
  then show "resume_fromBlock cfg startBlock 1000 = 995" by (simp add: resume_fromBlock_def)
next
  assume "OVERLAP_BLOCKS cfg = 5 \<and> FLR_SCAN_BLOCKS cfg = 499 \<and> startBlock \<le> 995"
  then show "scan_windows cfg 995 2000 = Some [(995, 1494), (1495, 1994), (1995, 2000)]"
    by (simp add: scenario_windows)
next
  assume h: "OVERLAP_BLOCKS cfg = 5 \<and> FLR_SCAN_BLOCKS cfg = 499
        \<and> scan_cursors db (cursorKey_of c) = Some cur
        \<and> last_scanned_block cur = 1000 \<and> start_block cur \<le> 995
        \<and> getBlockNumber env = Inr 2000 \<and> getAddress env (address c) = Inr addr
        \<and> (\<forall>n f. getLogs env n f = Inr [])"
  let ?now = "datetime_now env (length (getLogs_calls w))"
  let ?st0 = "\<lparr>st_db = db, st_world = w, lastGoodBlock = 995 - 1\<rparr>"
  have ens: "ensureCursor ?now db (cursorKey_of c) (default_start_block c) = db"
    using h by (simp add: ensureCursor_present)
  have frm: "resume_fromBlock cfg (start_block cur) (last_scanned_block cur) = 995"
    using h by (simp add: resume_fromBlock_def)
  have sz: "0 \<le> FLR_SCAN_BLOCKS cfg" using h by simp
  have addr: "getAddress env (address c) = Inr addr" using h by simp
  have quiet: "\<forall>n f. getLogs env n f = Inr []" using h by simp
  have "(995::int) \<le> 2000 + 1" by simp
  from scan_loop_quiet[OF sz addr quiet this, of ?st0]
  obtain ws w' where ws: "scan_windows cfg 995 2000 = Some ws"
    and run: "scan_loop cfg env c 2000 995 ?st0 =
               Some (Returns \<lparr>st_db = st_db ?st0, st_world = w',
                       lastGoodBlock = (if ws = [] then lastGoodBlock ?st0 else 2000)\<rparr>)"
    and fr: "fetched_ranges w' = fetched_ranges (st_world ?st0) @ ws"
    by blast
  have wsv: "ws = [(995, 1494), (1495, 1994), (1995, 2000)]"
    using ws h by (simp add: scenario_windows)
  have cur: "scan_cursors (ensureCursor ?now db (cursorKey_of c) (default_start_block c))
               (cursorKey_of c) = Some cur"
    using h ens by simp
  have head: "getBlockNumber env = Inr 2000" using h by simp
  have run': "scan_loop cfg env c 2000 995
           \<lparr>st_db = ensureCursor ?now db (cursorKey_of c) (default_start_block c),
            st_world = w, lastGoodBlock = 995 - 1\<rparr> =
          Some (Returns \<lparr>st_db = db, st_world = w', lastGoodBlock = 2000\<rparr>)"
    using run wsv ens by simp
  have "scanLoanNftTransfers cfg env c (db, w) =
          Some (Returns (advance_cursor env c 995
             \<lparr>st_db = db, st_world = w', lastGoodBlock = 2000\<rparr>))"
    using scan_run[OF cur head frm _ run'] by simp
  moreover have "snd (advance_cursor env c 995 \<lparr>st_db = db, st_world = w', lastGoodBlock = 2000\<rparr>) = w'"
    by (simp add: advance_cursor_def)
  ultimately show "\<exists>db' w'. scanLoanNftTransfers cfg env c (db, w) = Some (Returns (db', w'))
           \<and> fetched_ranges w' =
               fetched_ranges w @ [(995, 1494), (1495, 1994), (1995, 2000)]"
    using fr wsv by (metis prod.collapse scan_state.select_convs(2))
qed

theorem resume_start_witness:
  "resume_fromBlock cfg0 100 1000 = 995
   \<and> scan_windows cfg0 995 2000 = Some [(995, 1494), (1495, 1994), (1995, 2000)]
   \<and> (\<exists>db' w'. scanLoanNftTransfers cfg0 (env_quiet 2000) c0 (db_at 1000, w0) = Some (Returns (db', w'))
         \<and> fetched_ranges w' = [(995, 1494), (1495, 1994), (1995, 2000)])"
proof -
  have h1: "OVERLAP_BLOCKS cfg0 = 5 \<and> FLR_SCAN_BLOCKS cfg0 = 499 \<and> (100::int) \<le> 995"
    by (simp add: cfg0_def)
  have h2: "OVERLAP_BLOCKS cfg0 = 5 \<and> FLR_SCAN_BLOCKS cfg0 = 499
        \<and> scan_cursors (db_at 1000) (cursorKey_of c0) =
            Some \<lparr>start_block = 100, last_scanned_block = 1000, updated_at = ''2025-12-31 00:00:00''\<rparr>
        \<and> last_scanned_block \<lparr>start_block = 100, last_scanned_block = 1000, updated_at = ''2025-12-31 00:00:00''\<rparr> = 1000
        \<and> start_block \<lparr>start_block = 100, last_scanned_block = 1000, updated_at = ''2025-12-31 00:00:00''\<rparr> \<le> 995
        \<and> getBlockNumber (env_quiet 2000) = Inr 2000
        \<and> getAddress (env_quiet 2000) (address c0) = Inr (address c0)
        \<and> (\<forall>n f. getLogs (env_quiet 2000) n f = Inr [])"
    by (simp add: cfg0_def db_at_def env_quiet_def)
  note t = resume_start[where cfg = cfg0 and startBlock = 100 and db = "db_at 1000" and c = c0
      and env = "env_quiet 2000" and w = w0]
  have a: "resume_fromBlock cfg0 100 1000 = 995
     \<and> scan_windows cfg0 995 2000 = Some [(995, 1494), (1495, 1994), (1995, 2000)]"
    using t[THEN conjunct2, THEN conjunct1, rule_format, OF h1] .
  have b: "\<exists>db' w'. scanLoanNftTransfers cfg0 (env_quiet 2000) c0 (db_at 1000, w0) = Some (Returns (db', w'))
         \<and> fetched_ranges w' = fetched_ranges w0 @ [(995, 1494), (1495, 1994), (1995, 2000)]"
    using t[THEN conjunct2, THEN conjunct2, rule_format, OF h2] .
  have "fetched_ranges w0 = []" by (simp add: fetched_ranges_def w0_def)
  with a b show ?thesis by simp
qed

section \<open>Cursor advancement\<close>

text \<open>
  Claim C4 as stated fails. With the cursor at 1000 and an overlap of 5, a run whose
  provider reports the head block 998 scans the window [995, 998] and stores 998; and a
  run with windows of 3 blocks whose second request fails stores 997, the end of its first
  window.
\<close>

theorem cursor_regresses:
  "cursor_value (db_at 1000) (cursorKey_of c0) = Some 1000
   \<and> scanLoanNftTransfers cfg0 (env_quiet 998) c0 (db_at 1000, w0) =
       Some (Returns (db_after 998,
          \<lparr>getLogs_calls = [window_filter cfg0 ''0xabc'' 998 995], sleeps = [],
           getBlock_calls = []\<rparr>))
   \<and> cursor_value (db_after 998) (cursorKey_of c0) = Some 998
   \<and> scanLoanNftTransfers cfg_small (env_first_only 2000) c0 (db_at 1000, w0) =
       Some (Returns (db_after 997,
          \<lparr>getLogs_calls = [window_filter cfg_small ''0xabc'' 2000 995,
                           window_filter cfg_small ''0xabc'' 2000 998],
           sleeps = [], getBlock_calls = []\<rparr>))
   \<and> cursor_value (db_after 997) (cursorKey_of c0) = Some 997"
proof (intro conjI)
  show "cursor_value (db_at 1000) (cursorKey_of c0) = Some 1000"
    by (simp add: cursor_value_def db_at_def)
next
  show "scanLoanNftTransfers cfg0 (env_quiet 998) c0 (db_at 1000, w0) =
       Some (Returns (db_after 998,
          \<lparr>getLogs_calls = [window_filter cfg0 ''0xabc'' 998 995], sleeps = [],
           getBlock_calls = []\<rparr>))"
    by (simp add: scanLoanNftTransfers_def ensureCursor_def db_at_def env_quiet_def cfg0_def
        resume_fromBlock_def scan_loop.simps scan_window_def getLogsWithRetry_def
        getLogsWithRetry_loop.simps call_getLogs_def w0_def c0_def resolveBlockTimestamps_Nil
        advance_cursor_def updateCursor_def window_filter_def cursor_row_at_def Let_def
        db_after_def)
next
  show "cursor_value (db_after 998) (cursorKey_of c0) = Some 998"
    by (simp add: cursor_value_def db_after_def cursor_row_at_def)
next
  show "scanLoanNftTransfers cfg_small (env_first_only 2000) c0 (db_at 1000, w0) =
       Some (Returns (db_after 997,
          \<lparr>getLogs_calls = [window_filter cfg_small ''0xabc'' 2000 995,
                           window_filter cfg_small ''0xabc'' 2000 998],
           sleeps = [], getBlock_calls = []\<rparr>))"
    by (simp add: scanLoanNftTransfers_def ensureCursor_def db_at_def env_first_only_def
        cfg_small_def resume_fromBlock_def scan_loop.simps scan_window_def getLogsWithRetry_def
        getLogsWithRetry_loop.simps call_getLogs_def w0_def c0_def resolveBlockTimestamps_Nil
        advance_cursor_def updateCursor_def window_filter_def cursor_row_at_def Let_def
        not_retry_invalid db_after_def)
next
  show "cursor_value (db_after 997) (cursorKey_of c0) = Some 997"
    by (simp add: cursor_value_def db_after_def cursor_row_at_def)
qed

text \<open>
  Claim C4, as amended. After a run that returns, the stored \<open>last_scanned_block\<close> is not
  below the value read at the start of the run whenever the head block is not below that
  value and, in addition, no fetch of the run fails (a fetch that succeeds after retries
  does not fail) or the first window reaches the value read, as it does when the window
  size is not less than the overlap. In every case the stored value is the value read or a
  block not before the start of the scan, \<open>max(start_block, last_scanned_block - overlap)\<close>,
  so that a run lowers a positive cursor by at most the overlap.
\<close>

theorem cursor_regress_bounded:
  assumes "scanLoanNftTransfers cfg env c (db, w) = Some (Returns (db', w'))"
    and "scan_cursors (ensureCursor (datetime_now env (length (getLogs_calls w))) db
                (cursorKey_of c) (default_start_block c)) (cursorKey_of c) = Some cur"
  shows "\<exists>v. cursor_value db' (cursorKey_of c) = Some v
           \<and> (v = last_scanned_block cur
                \<or> resume_fromBlock cfg (start_block cur) (last_scanned_block cur) \<le> v)
           \<and> (0 < last_scanned_block cur \<and> 0 \<le> OVERLAP_BLOCKS cfg \<longrightarrow>
                 last_scanned_block cur - OVERLAP_BLOCKS cfg \<le> v)
           \<and> (0 \<le> FLR_SCAN_BLOCKS cfg \<and> (\<forall>n f. \<exists>lgs. getLogs env n f = Inr lgs)
                \<and> getBlockNumber env = Inr latest \<and> last_scanned_block cur \<le> latest \<longrightarrow>
                 last_scanned_block cur \<le> v)
           \<and> (0 \<le> FLR_SCAN_BLOCKS cfg
                \<and> getBlockNumber env = Inr latest \<and> last_scanned_block cur \<le> latest
                \<and> (\<forall>k b st addr err w1.
                      loop_head cfg env c latest k
                        (resume_fromBlock cfg (start_block cur) (last_scanned_block cur))
                        \<lparr>st_db = ensureCursor (datetime_now env (length (getLogs_calls w))) db
                                   (cursorKey_of c) (default_start_block c),
                         st_world = w,
                         lastGoodBlock =
                           resume_fromBlock cfg (start_block cur) (last_scanned_block cur) - 1\<rparr>
                        = Some (b, st)
                      \<and> b \<le> latest \<and> getAddress env (address c) = Inr addr \<longrightarrow>
                      getLogsWithRetry env (window_filter cfg addr latest b) 6 (st_world st)
                        \<noteq> (Failed err, w1)) \<longrightarrow>
                 last_scanned_block cur \<le> v)
           \<and> (0 \<le> FLR_SCAN_BLOCKS cfg
                \<and> getBlockNumber env = Inr latest \<and> last_scanned_block cur \<le> latest
                \<and> (0 < last_scanned_block cur \<and> OVERLAP_BLOCKS cfg \<le> FLR_SCAN_BLOCKS cfg
                    \<or> last_scanned_block cur
                        \<le> resume_fromBlock cfg (start_block cur) (last_scanned_block cur)
                            + FLR_SCAN_BLOCKS cfg) \<longrightarrow>
                 last_scanned_block cur \<le> v)"
  using assms
proof (cases rule: scan_returns_cases)
  case (skipped latest0)
  then have "cursor_value db' (cursorKey_of c) = Some (last_scanned_block cur)"
    using assms(2) by (simp add: cursor_value_def)
  then show ?thesis by simp
next
  case (scanned latest0 st')
  let ?sz = "FLR_SCAN_BLOCKS cfg"
  let ?b0 = "resume_fromBlock cfg (start_block cur) (last_scanned_block cur)"
  let ?st0 = "\<lparr>st_db = ensureCursor (datetime_now env (length (getLogs_calls w))) db
                                   (cursorKey_of c) (default_start_block c),
               st_world = w, lastGoodBlock = ?b0 - 1\<rparr>"
  have "scan_cursors (st_db (final_state (Returns st'))) (cursorKey_of c) = Some cur"
    using scan_loop_cursors[OF scanned(3)] assms(2) by simp
  then have c': "scan_cursors (st_db st') (cursorKey_of c) = Some cur"
    by (simp add: final_state_def)
  have db': "db' = fst (advance_cursor env c ?b0 st')"
    using scanned(4) by (metis fst_conv)
  let ?v = "if lastGoodBlock st' \<ge> ?b0 then lastGoodBlock st' else last_scanned_block cur"
  have v: "cursor_value db' (cursorKey_of c) = Some ?v"
    unfolding db' by (rule advance_cursor_value[OF c'])
  have a: "?v = last_scanned_block cur \<or> ?b0 \<le> ?v" by simp
  have b: "last_scanned_block cur - OVERLAP_BLOCKS cfg \<le> ?v"
    if "0 < last_scanned_block cur \<and> 0 \<le> OVERLAP_BLOCKS cfg"
    using that by (auto simp: resume_fromBlock_def)
  have d: "last_scanned_block cur \<le> ?v"
    if h: "0 \<le> ?sz \<and> (\<forall>n f. \<exists>lgs. getLogs env n f = Inr lgs)
                \<and> getBlockNumber env = Inr latest \<and> last_scanned_block cur \<le> latest"
  proof -
    from h scanned(1) have l: "latest0 = latest" by simp
    have "lastGoodBlock st' = latest0"
      using scan_loop_no_break[OF _ _ scanned(2) scanned(3)] h by blast
    with l h scanned(2) show ?thesis by simp
  qed
  have e: "last_scanned_block cur \<le> ?v"
    if h: "0 \<le> ?sz
                \<and> getBlockNumber env = Inr latest \<and> last_scanned_block cur \<le> latest
                \<and> (\<forall>k b st addr err w1.
                      loop_head cfg env c latest k ?b0 ?st0 = Some (b, st)
                      \<and> b \<le> latest \<and> getAddress env (address c) = Inr addr \<longrightarrow>
                      getLogsWithRetry env (window_filter cfg addr latest b) 6 (st_world st)
                        \<noteq> (Failed err, w1))"
  proof -
    from h scanned(1) have l: "latest0 = latest" by simp
    have nb: "\<forall>k b st st1. loop_head cfg env c latest k ?b0 ?st0 = Some (b, st) \<and> b \<le> latest \<longrightarrow>
              scan_window cfg env c latest b st \<noteq> Break st1"
    proof (intro allI impI notI)
      fix k b st st1
      assume r: "loop_head cfg env c latest k ?b0 ?st0 = Some (b, st) \<and> b \<le> latest"
        and br: "scan_window cfg env c latest b st = Break st1"
      from scan_window_Break_fetch[OF br] obtain addr err w1 where
        "getAddress env (address c) = Inr addr"
        "getLogsWithRetry env (window_filter cfg addr latest b) 6 (st_world st) = (Failed err, w1)"
        by blast
      with h r show False by blast
    qed
    have h0: "loop_head cfg env c latest 0 ?b0 ?st0 = Some (?b0, ?st0)" by simp
    have sz: "0 \<le> ?sz" using h by simp
    have "lastGoodBlock st' = latest"
      using scan_loop_all_fetched[OF sz nb h0] scanned(2,3) l by simp
    with l h scanned(2) show ?thesis by simp
  qed
  have f: "last_scanned_block cur \<le> ?v"
    if h: "0 \<le> ?sz
                \<and> getBlockNumber env = Inr latest \<and> last_scanned_block cur \<le> latest
                \<and> (0 < last_scanned_block cur \<and> OVERLAP_BLOCKS cfg \<le> ?sz
                    \<or> last_scanned_block cur \<le> ?b0 + ?sz)"
  proof -
    from h scanned(1) have l: "latest0 = latest" by simp
    have reach: "last_scanned_block cur \<le> ?b0 + ?sz"
      using h by (auto simp: resume_fromBlock_def)
    have sz: "0 \<le> ?sz" using h by simp
    have "lastGoodBlock ?st0 < ?b0" by simp
    from scan_loop_first_window[OF sz scanned(2) this scanned(3)]
    have "lastGoodBlock st' = ?b0 - 1 \<or> min (?b0 + ?sz) latest0 \<le> lastGoodBlock st'" by simp
    then show ?thesis
    proof
      assume "lastGoodBlock st' = ?b0 - 1"
      then show ?thesis by simp
    next
      assume m: "min (?b0 + ?sz) latest0 \<le> lastGoodBlock st'"
      have "last_scanned_block cur \<le> min (?b0 + ?sz) latest0" using reach h l by simp
      with m have "last_scanned_block cur \<le> lastGoodBlock st'" by linarith
      then show ?thesis by simp
    qed
  qed
  show ?thesis using v a b d e f by blast
qed

theorem cursor_regress_bounded_witness:
  "(\<exists>v. cursor_value (db_after 2000) (cursorKey_of c0) = Some v
      \<and> (v = 1000 \<or> 995 \<le> v) \<and> 1000 - 5 \<le> v \<and> 1000 \<le> v)
   \<and> (\<exists>v. cursor_value (db_after 1494) (cursorKey_of c0) = Some v \<and> 1000 \<le> v)"
proof -
  let ?cur = "cursor_row_at 1000 ''2025-12-31 00:00:00''"
  have e: "ensureCursor now (db_at 1000) (cursorKey_of c0) (default_start_block c0) = db_at 1000"
    for now by (simp add: ensureCursor_def db_at_def)
  have cur: "scan_cursors (ensureCursor (datetime_now env (length (getLogs_calls w0)))
                (db_at 1000) (cursorKey_of c0) (default_start_block c0)) (cursorKey_of c0)
             = Some ?cur" for env
    by (simp add: ensureCursor_def db_at_def cursor_row_at_def)
  have r: "resume_fromBlock cfg0 (start_block ?cur) (last_scanned_block ?cur) = 995"
    by (simp add: resume_fromBlock_def cfg0_def cursor_row_at_def)
  have o: "0 < last_scanned_block ?cur \<and> 0 \<le> OVERLAP_BLOCKS cfg0"
    by (simp add: cfg0_def cursor_row_at_def)
  have h5: "0 \<le> FLR_SCAN_BLOCKS cfg0
        \<and> getBlockNumber (env_retry_once 2000) = Inr 2000 \<and> last_scanned_block ?cur \<le> 2000
        \<and> (\<forall>k b st addr err w1.
              loop_head cfg0 (env_retry_once 2000) c0 2000 k
                (resume_fromBlock cfg0 (start_block ?cur) (last_scanned_block ?cur))
                \<lparr>st_db = ensureCursor (datetime_now (env_retry_once 2000) (length (getLogs_calls w0)))
                           (db_at 1000) (cursorKey_of c0) (default_start_block c0),
                 st_world = w0,
                 lastGoodBlock = resume_fromBlock cfg0 (start_block ?cur) (last_scanned_block ?cur) - 1\<rparr>
                = Some (b, st)
              \<and> b \<le> 2000 \<and> getAddress (env_retry_once 2000) (address c0) = Inr addr \<longrightarrow>
              getLogsWithRetry (env_retry_once 2000) (window_filter cfg0 addr 2000 b) 6 (st_world st)
                \<noteq> (Failed err, w1))"
  proof -
    have "getLogsWithRetry (env_retry_once 2000) flt 6 w \<noteq> (Failed err, w1)" for flt w err w1
      using retry_once_fetches[of 2000 flt w] by auto
    then show ?thesis by (simp add: cfg0_def env_retry_once_def cursor_row_at_def)
  qed
  have h6: "0 \<le> FLR_SCAN_BLOCKS cfg0
        \<and> getBlockNumber (env_first_only 2000) = Inr 2000 \<and> last_scanned_block ?cur \<le> 2000
        \<and> (0 < last_scanned_block ?cur \<and> OVERLAP_BLOCKS cfg0 \<le> FLR_SCAN_BLOCKS cfg0
            \<or> last_scanned_block ?cur
                \<le> resume_fromBlock cfg0 (start_block ?cur) (last_scanned_block ?cur)
                    + FLR_SCAN_BLOCKS cfg0)"
    by (simp add: cfg0_def env_first_only_def cursor_row_at_def)
  from cursor_regress_bounded[OF retry_once_run cur, where latest = 2000]
  obtain v where v: "cursor_value (db_after 2000) (cursorKey_of c0) = Some v"
    and v1: "v = last_scanned_block ?cur \<or> resume_fromBlock cfg0 (start_block ?cur) (last_scanned_block ?cur) \<le> v"
    and v2: "0 < last_scanned_block ?cur \<and> 0 \<le> OVERLAP_BLOCKS cfg0 \<longrightarrow>
                 last_scanned_block ?cur - OVERLAP_BLOCKS cfg0 \<le> v"
    and v5: "last_scanned_block ?cur \<le> v"
    using h5 by blast
  have p1: "\<exists>v. cursor_value (db_after 2000) (cursorKey_of c0) = Some v
      \<and> (v = 1000 \<or> 995 \<le> v) \<and> 1000 - 5 \<le> v \<and> 1000 \<le> v"
    using v v1 v2 v5 o unfolding r by (auto simp: cursor_row_at_def cfg0_def)
  from cursor_regress_bounded[OF refused_second_run cur, where latest = 2000]
  obtain u where u: "cursor_value (db_after 1494) (cursorKey_of c0) = Some u"
    and u6: "last_scanned_block ?cur \<le> u"
    using h6 by blast
  have p2: "\<exists>v. cursor_value (db_after 1494) (cursorKey_of c0) = Some v \<and> 1000 \<le> v"
    using u u6 by (auto simp: cursor_row_at_def)
  show ?thesis using p1 p2 by blast
qed

section \<open>Failure of a window\<close>

text \<open>
  Claim C5. Let \<open>k\<close> windows of a run have been fetched, decoded and committed, and let the
  fetch of the next window, which starts at block \<open>b\<close>, fail. Then the run returns instead
  of throwing; its trace ends with that fetch, so no later window is requested; the rows
  are those present when the failed window began; and the cursor holds \<open>b - 1\<close>, the last
  block of the window committed last, or, when \<open>k = 0\<close>, the store is as it was.
\<close>

theorem fetch_failure_stops_run:
  assumes "0 \<le> FLR_SCAN_BLOCKS cfg"
    and "scan_cursors (ensureCursor (datetime_now env (length (getLogs_calls w))) db
              (cursorKey_of c) (default_start_block c)) (cursorKey_of c) = Some cur"
    and "getBlockNumber env = Inr latest"
    and "resume_fromBlock cfg (start_block cur) (last_scanned_block cur) = b0"
    and "loop_head cfg env c latest k b0
           \<lparr>st_db = ensureCursor (datetime_now env (length (getLogs_calls w))) db
              (cursorKey_of c) (default_start_block c),
            st_world = w, lastGoodBlock = b0 - 1\<rparr> = Some (b, st)"
    and "b \<le> latest"
    and "getAddress env (address c) = Inr addr"
    and "getLogsWithRetry env (window_filter cfg addr latest b) 6 (st_world st) = (Failed err, w1)"
  shows "\<exists>db'. scanLoanNftTransfers cfg env c (db, w) = Some (Returns (db', w1))
           \<and> loan_nft_transfers db' = loan_nft_transfers (st_db st)
           \<and> transactions db' = transactions (st_db st)
           \<and> cursor_value db' (cursorKey_of c) =
                Some (if k = 0 then last_scanned_block cur else b - 1)
           \<and> (k = 0 \<longrightarrow> db' = ensureCursor (datetime_now env (length (getLogs_calls w))) db
                              (cursorKey_of c) (default_start_block c))
           \<and> (\<exists>ws. scan_windows cfg b0 latest = Some ws \<and> k < length ws \<and> fst (ws ! k) = b
                  \<and> (0 < k \<longrightarrow> snd (ws ! (k - 1)) = b - 1))"
proof -
  let ?sz = "FLR_SCAN_BLOCKS cfg"
  let ?db1 = "ensureCursor (datetime_now env (length (getLogs_calls w))) db
              (cursorKey_of c) (default_start_block c)"
  let ?st1 = "st\<lparr>st_world := w1\<rparr>"
  let ?db' = "fst (advance_cursor env c b0 ?st1)"
  have br: "scan_window cfg env c latest b st = Break ?st1"
    by (rule scan_window_Break[OF assms(7,8)])
  have run: "scanLoanNftTransfers cfg env c (db, w) = Some (Returns (advance_cursor env c b0 ?st1))"
    by (rule scan_break_run[OF assms(2,3,4,5,6) br])
  have w': "advance_cursor env c b0 ?st1 = (?db', w1)"
    by (simp add: advance_cursor_def)
  have bk: "b = b0 + int k * (?sz + 1)" by (rule loop_head_b[OF assms(5)])
  have b0le: "b0 \<le> latest" by (rule loop_head_le[OF assms(5,6)])
  have cur': "scan_cursors (st_db ?st1) (cursorKey_of c) = Some cur"
    using loop_head_cursors[OF assms(5)] assms(2) by simp
  have lg: "lastGoodBlock ?st1 = (if k = 0 then b0 - 1 else b - 1)"
  proof (cases k)
    case 0
    with assms(5) show ?thesis by auto
  next
    case (Suc k')
    with loop_head_lastGood[of cfg env c latest k' b0 _ b st] assms(5,6) show ?thesis by simp
  qed
  have ge: "0 < k \<Longrightarrow> b0 \<le> b - 1"
  proof -
    assume "0 < k"
    then have "1 \<le> int k" by simp
    moreover have "1 \<le> ?sz + 1" using assms(1) by simp
    ultimately have "1 * 1 \<le> int k * (?sz + 1)" by (intro mult_mono) auto
    with bk show ?thesis by simp
  qed
  have cv: "cursor_value ?db' (cursorKey_of c) =
                Some (if k = 0 then last_scanned_block cur else b - 1)"
    using advance_cursor_value[OF cur', of env b0] lg ge by (cases "k = 0") auto
  have rows: "loan_nft_transfers ?db' = loan_nft_transfers (st_db st)"
    "transactions ?db' = transactions (st_db st)"
    by (auto simp: advance_cursor_def updateCursor_def split: option.splits)
  have k0: "k = 0 \<longrightarrow> ?db' = ?db1"
    using assms(5) lg by (auto simp: advance_cursor_def)
  from scan_windows_tiling[OF assms(1), of b0 latest] b0le
  obtain ws where ws: "scan_windows cfg b0 latest = Some ws" by auto
  have nth: "k < length ws \<and> ws ! k = (b, min (b + ?sz) latest)"
    using scan_windows_nth[OF assms(1) ws, of k] assms(6) bk by simp
  have prev: "snd (ws ! (k - 1)) = b - 1" if "0 < k"
  proof -
    from that obtain k' where k': "k = Suc k'" by (cases k) auto
    have e: "b0 + int k' * (?sz + 1) + ?sz = b - 1" using bk k' by (simp add: algebra_simps)
    then have "b0 + int k' * (?sz + 1) \<le> latest" using assms(1,6) by simp
    from scan_windows_nth[OF assms(1) ws this] e assms(6) k' show ?thesis by simp
  qed
  show ?thesis
    using run w' rows cv k0 ws nth prev by (intro exI[of _ ?db']) auto
qed

lemma small_run_head:
  "loop_head cfg_small (env_first_only 2000) c0 2000 1 995
     \<lparr>st_db = db_at 1000, st_world = w0, lastGoodBlock = 995 - 1\<rparr> =
   Some (998, \<lparr>st_db = db_at 1000,
               st_world = \<lparr>getLogs_calls = [window_filter cfg_small ''0xabc'' 2000 995],
                            sleeps = [], getBlock_calls = []\<rparr>,
               lastGoodBlock = 997\<rparr>)"
  by (simp add: scan_window_def env_first_only_def cfg_small_def getLogsWithRetry_def
      getLogsWithRetry_loop.simps call_getLogs_def w0_def c0_def resolveBlockTimestamps_Nil
      window_filter_def Let_def)

theorem fetch_failure_stops_run_witness:
  "\<exists>db'. scanLoanNftTransfers cfg_small (env_first_only 2000) c0 (db_at 1000, w0) =
           Some (Returns (db',
             \<lparr>getLogs_calls = [window_filter cfg_small ''0xabc'' 2000 995,
                              window_filter cfg_small ''0xabc'' 2000 998],
              sleeps = [], getBlock_calls = []\<rparr>))
       \<and> loan_nft_transfers db' = []
       \<and> cursor_value db' (cursorKey_of c0) = Some 997"
proof -
  let ?env = "env_first_only 2000"
  let ?w = "\<lparr>getLogs_calls = [window_filter cfg_small ''0xabc'' 2000 995],
                            sleeps = [], getBlock_calls = []\<rparr>"
  let ?st = "\<lparr>st_db = db_at 1000, st_world = ?w, lastGoodBlock = 997\<rparr>"
  have e: "ensureCursor (datetime_now ?env (length (getLogs_calls w0))) (db_at 1000)
             (cursorKey_of c0) (default_start_block c0) = db_at 1000"
    by (simp add: ensureCursor_def db_at_def)
  have h1: "0 \<le> FLR_SCAN_BLOCKS cfg_small" by (simp add: cfg_small_def)
  have h2: "scan_cursors (ensureCursor (datetime_now ?env (length (getLogs_calls w0))) (db_at 1000)
             (cursorKey_of c0) (default_start_block c0)) (cursorKey_of c0)
            = Some (cursor_row_at 1000 ''2025-12-31 00:00:00'')"
    unfolding e by (simp add: db_at_def cursor_row_at_def)
  have h3: "getBlockNumber ?env = Inr 2000" by (simp add: env_first_only_def)
  have h4: "resume_fromBlock cfg_small (start_block (cursor_row_at 1000 ''2025-12-31 00:00:00''))
              (last_scanned_block (cursor_row_at 1000 ''2025-12-31 00:00:00'')) = 995"
    by (simp add: resume_fromBlock_def cfg_small_def cursor_row_at_def)
  have h5: "loop_head cfg_small ?env c0 2000 1 995
     \<lparr>st_db = ensureCursor (datetime_now ?env (length (getLogs_calls w0))) (db_at 1000)
             (cursorKey_of c0) (default_start_block c0),
      st_world = w0, lastGoodBlock = 995 - 1\<rparr> = Some (998, ?st)"
    unfolding e by (rule small_run_head)
  have h6: "(998::int) \<le> 2000" by simp
  have h7: "getAddress ?env (address c0) = Inr ''0xabc''"
    by (simp add: env_first_only_def c0_def)
  have h8: "getLogsWithRetry ?env (window_filter cfg_small ''0xabc'' 2000 998) 6 (st_world ?st) =
      (Failed (Error ''invalid block range''),
       \<lparr>getLogs_calls = [window_filter cfg_small ''0xabc'' 2000 995,
                              window_filter cfg_small ''0xabc'' 2000 998],
              sleeps = [], getBlock_calls = []\<rparr>)"
    by (simp add: getLogsWithRetry_def getLogsWithRetry_loop.simps call_getLogs_def
        env_first_only_def not_retry_invalid)
  from fetch_failure_stops_run[OF h1 h2 h3 h4 h5 h6 h7 h8]
  show ?thesis by (auto simp: db_at_def)
qed

section \<open>Empty windows and the cursor\<close>

lemma scan_window_empty:
  assumes "getAddress env (address c) = Inr addr"
    and "getLogsWithRetry env (window_filter cfg addr latest b) 6 (st_world st) = (Ok lgs, w1)"
    and "resolveBlockTimestamps env lgs w1 = (Inr m, w2)"
    and "decodeTransfers env m lgs = Inr []"
  shows "scan_window cfg env c latest b st =
           Continue \<lparr>st_db = st_db st, st_world = pause cfg w2,
                     lastGoodBlock = min (b + FLR_SCAN_BLOCKS cfg) latest\<rparr>"
  using assms by (simp add: scan_window_def window_filter_def Let_def pause_def)

text \<open>
  Claim C10. A window whose fetch succeeds and whose logs decode to no event leaves the
  store as it was, its count of transactions included, and sets the marker
  \<open>lastGoodBlock\<close> to the last block of the window. When the iterations for the windows
  \<open>0, ..., k\<close> of a run have run to their end and the run returns, the cursor it stores is
  not before the last block of window \<open>k\<close>, whatever these windows held. When the first
  fetch of a run fails, the run returns with the store as it was after
  \<^verbatim>\<open>ensureCursor\<close>: \<^verbatim>\<open>updateCursor\<close> is not called. \<^verbatim>\<open>scanPool\<close> has the same
  three statements around its loop.
\<close>

theorem empty_window_advances:
  "(getAddress env (address c) = Inr addr
     \<and> getLogsWithRetry env (window_filter cfg addr latest b) 6 (st_world st) = (Ok lgs, w1)
     \<and> resolveBlockTimestamps env lgs w1 = (Inr m, w2)
     \<and> decodeTransfers env m lgs = Inr [] \<longrightarrow>
       scan_window cfg env c latest b st =
         Continue \<lparr>st_db = st_db st, st_world = pause cfg w2,
                   lastGoodBlock = min (b + FLR_SCAN_BLOCKS cfg) latest\<rparr>)
   \<and> (0 \<le> FLR_SCAN_BLOCKS cfg
       \<and> scan_cursors (ensureCursor (datetime_now env (length (getLogs_calls w))) db
              (cursorKey_of c) (default_start_block c)) (cursorKey_of c) = Some cur
       \<and> getBlockNumber env = Inr latest
       \<and> resume_fromBlock cfg (start_block cur) (last_scanned_block cur) = b0
       \<and> loop_head cfg env c latest (Suc k) b0
           \<lparr>st_db = ensureCursor (datetime_now env (length (getLogs_calls w))) db
              (cursorKey_of c) (default_start_block c),
            st_world = w, lastGoodBlock = b0 - 1\<rparr> = Some (b', st')
       \<and> scanLoanNftTransfers cfg env c (db, w) = Some (Returns (db', w')) \<longrightarrow>
       lastGoodBlock st' =
         min (b0 + int k * (FLR_SCAN_BLOCKS cfg + 1) + FLR_SCAN_BLOCKS cfg) latest
       \<and> (\<exists>v. cursor_value db' (cursorKey_of c) = Some v \<and> lastGoodBlock st' \<le> v))
   \<and> (scan_cursors (ensureCursor (datetime_now env (length (getLogs_calls w))) db
              (cursorKey_of c) (default_start_block c)) (cursorKey_of c) = Some cur
       \<and> getBlockNumber env = Inr latest
       \<and> resume_fromBlock cfg (start_block cur) (last_scanned_block cur) = b0
       \<and> b0 \<le> latest
       \<and> getAddress env (address c) = Inr addr
       \<and> getLogsWithRetry env (window_filter cfg addr latest b0) 6 w = (Failed err, w1) \<longrightarrow>
       scanLoanNftTransfers cfg env c (db, w) =
         Some (Returns (ensureCursor (datetime_now env (length (getLogs_calls w))) db
              (cursorKey_of c) (default_start_block c), w1)))"
proof (intro conjI impI)
  assume "getAddress env (address c) = Inr addr
     \<and> getLogsWithRetry env (window_filter cfg addr latest b) 6 (st_world st) = (Ok lgs, w1)
     \<and> resolveBlockTimestamps env lgs w1 = (Inr m, w2)
     \<and> decodeTransfers env m lgs = Inr []"
  then show "scan_window cfg env c latest b st =
         Continue \<lparr>st_db = st_db st, st_world = pause cfg w2,
                   lastGoodBlock = min (b + FLR_SCAN_BLOCKS cfg) latest\<rparr>"
    by (intro scan_window_empty) auto
next
  let ?sz = "FLR_SCAN_BLOCKS cfg"
  let ?db1 = "ensureCursor (datetime_now env (length (getLogs_calls w))) db
              (cursorKey_of c) (default_start_block c)"
  let ?st0 = "\<lparr>st_db = ?db1, st_world = w, lastGoodBlock = b0 - 1\<rparr>"
  assume h: "0 \<le> ?sz
       \<and> scan_cursors ?db1 (cursorKey_of c) = Some cur
       \<and> getBlockNumber env = Inr latest
       \<and> resume_fromBlock cfg (start_block cur) (last_scanned_block cur) = b0
       \<and> loop_head cfg env c latest (Suc k) b0 ?st0 = Some (b', st')
       \<and> scanLoanNftTransfers cfg env c (db, w) = Some (Returns (db', w'))"
  then have sz: "0 \<le> ?sz" and cur: "scan_cursors ?db1 (cursorKey_of c) = Some cur"
    and head: "getBlockNumber env = Inr latest"
    and b0: "resume_fromBlock cfg (start_block cur) (last_scanned_block cur) = b0"
    and lh: "loop_head cfg env c latest (Suc k) b0 ?st0 = Some (b', st')"
    and run: "scanLoanNftTransfers cfg env c (db, w) = Some (Returns (db', w'))"
    by auto
  have b0le: "b0 \<le> latest" using lh by (simp split: if_splits)
  have b': "b' = b0 + int (Suc k) * (?sz + 1)" by (rule loop_head_b[OF lh])
  have lg: "lastGoodBlock st' = min (b' - 1) latest" by (rule loop_head_lastGood[OF lh])
  have e: "b' - 1 = b0 + int k * (?sz + 1) + ?sz" using b' by (simp add: algebra_simps)
  show g1: "lastGoodBlock st' = min (b0 + int k * (?sz + 1) + ?sz) latest"
    using lg e by simp
  have "0 \<le> int k * (?sz + 1)" using sz by simp
  then have ge: "b0 \<le> lastGoodBlock st'" using g1 b0le sz by simp
  from run cur show "\<exists>v. cursor_value db' (cursorKey_of c) = Some v \<and> lastGoodBlock st' \<le> v"
  proof (cases rule: scan_returns_cases)
    case (skipped latest0)
    with head b0 b0le show ?thesis by simp
  next
    case (scanned latest0 fin)
    with head have l0: "latest0 = latest" by simp
    have loop: "scan_loop cfg env c latest b' st' = Some (Returns fin)"
      using scanned(3) loop_head_scan_loop[OF lh] b0 l0 by simp
    have "lastGoodBlock st' < b'" using lg by simp
    with scan_loop_lastGood_mono[OF loop] sz
    have mono: "lastGoodBlock st' \<le> lastGoodBlock fin" by (simp add: final_state_def)
    have "scan_cursors (st_db (final_state (Returns fin))) (cursorKey_of c) = Some cur"
      using scan_loop_cursors[OF scanned(3)] cur by simp
    then have c': "scan_cursors (st_db fin) (cursorKey_of c) = Some cur"
      by (simp add: final_state_def)
    have "db' = fst (advance_cursor env c b0 fin)"
      using scanned(4) b0 by (metis fst_conv)
    with advance_cursor_value[OF c', of env b0] mono ge show ?thesis by simp
  qed
next
  let ?db1 = "ensureCursor (datetime_now env (length (getLogs_calls w))) db
              (cursorKey_of c) (default_start_block c)"
  let ?st0 = "\<lparr>st_db = ?db1, st_world = w, lastGoodBlock = b0 - 1\<rparr>"
  assume h: "scan_cursors ?db1 (cursorKey_of c) = Some cur
       \<and> getBlockNumber env = Inr latest
       \<and> resume_fromBlock cfg (start_block cur) (last_scanned_block cur) = b0
       \<and> b0 \<le> latest
       \<and> getAddress env (address c) = Inr addr
       \<and> getLogsWithRetry env (window_filter cfg addr latest b0) 6 w = (Failed err, w1)"
  have lh: "loop_head cfg env c latest 0 b0 ?st0 = Some (b0, ?st0)" by simp
  have br: "scan_window cfg env c latest b0 ?st0 = Break (?st0\<lparr>st_world := w1\<rparr>)"
    using h by (intro scan_window_Break[where addr = addr and err = err]) auto
  have "scanLoanNftTransfers cfg env c (db, w) =
          Some (Returns (advance_cursor env c b0 (?st0\<lparr>st_world := w1\<rparr>)))"
    using h by (intro scan_break_run[OF _ _ _ lh _ br, where cur = cur]) auto
  then show "scanLoanNftTransfers cfg env c (db, w) = Some (Returns (?db1, w1))"
    by (simp add: advance_cursor_def)
qed

lemma quiet_run_head:
  "loop_head cfg0 (env_quiet 2000) c0 2000 (Suc 0) 995
     \<lparr>st_db = db_at 1000, st_world = w0, lastGoodBlock = 995 - 1\<rparr> =
   Some (1495, \<lparr>st_db = db_at 1000,
               st_world = \<lparr>getLogs_calls = [window_filter cfg0 ''0xabc'' 2000 995],
                            sleeps = [], getBlock_calls = []\<rparr>,
               lastGoodBlock = 1494\<rparr>)"
  by (simp add: scan_window_def env_quiet_def cfg0_def getLogsWithRetry_def
      getLogsWithRetry_loop.simps call_getLogs_def w0_def c0_def resolveBlockTimestamps_Nil
      window_filter_def Let_def)

theorem empty_window_advances_witness:
  "scan_window cfg0 (env_junk 2000) c0 2000 995
      \<lparr>st_db = db_at 1000, st_world = w0, lastGoodBlock = 994\<rparr> =
     Continue \<lparr>st_db = db_at 1000,
               st_world = \<lparr>getLogs_calls = [window_filter cfg0 ''0xabc'' 2000 995],
                            sleeps = [], getBlock_calls = [1000]\<rparr>,
               lastGoodBlock = 1494\<rparr>
   \<and> (\<exists>v. cursor_value (db_after 2000) (cursorKey_of c0) = Some v \<and> 1494 \<le> v)
   \<and> scanLoanNftTransfers cfg0 env_refusing c0 (db_at 1000, w0) =
       Some (Returns (db_at 1000,
         \<lparr>getLogs_calls = [window_filter cfg0 ''0xabc'' 2000 995], sleeps = [],
          getBlock_calls = []\<rparr>))"
proof -
  let ?w1 = "\<lparr>getLogs_calls = [window_filter cfg0 ''0xabc'' 2000 995],
                            sleeps = [], getBlock_calls = []\<rparr>"
  let ?w2 = "\<lparr>getLogs_calls = [window_filter cfg0 ''0xabc'' 2000 995],
                            sleeps = [], getBlock_calls = [1000]\<rparr>"
  let ?cur = "cursor_row_at 1000 ''2025-12-31 00:00:00''"
  let ?st0 = "\<lparr>st_db = db_at 1000, st_world = w0, lastGoodBlock = 994\<rparr>"
  have e: "ensureCursor now (db_at 1000) (cursorKey_of c0) (default_start_block c0) = db_at 1000"
    for now by (simp add: ensureCursor_def db_at_def)
  have cur: "scan_cursors (db_at 1000) (cursorKey_of c0) = Some ?cur"
    by (simp add: db_at_def cursor_row_at_def)
  have res: "resume_fromBlock cfg0 (start_block ?cur) (last_scanned_block ?cur) = 995"
    by (simp add: resume_fromBlock_def cfg0_def cursor_row_at_def)
  have a: "getAddress (env_junk 2000) (address c0) = Inr ''0xabc''
     \<and> getLogsWithRetry (env_junk 2000) (window_filter cfg0 ''0xabc'' 2000 995) 6 (st_world ?st0)
          = (Ok [lg_junk], ?w1)
     \<and> resolveBlockTimestamps (env_junk 2000) [lg_junk] ?w1 = (Inr [1000 \<mapsto> 1700000000], ?w2)
     \<and> decodeTransfers (env_junk 2000) [1000 \<mapsto> 1700000000] [lg_junk] = Inr []"
    by (simp add: env_junk_def c0_def getLogsWithRetry_def getLogsWithRetry_loop.simps
        call_getLogs_def w0_def resolveBlockTimestamps_def uniqueBlocks_def rejections_def
        set_timestamp_def decodeTransfer_def lg_junk_def)
  note t = empty_window_advances[where cfg = cfg0 and c = c0 and latest = 2000 and ?b0.0 = 995
      and db = "db_at 1000" and w = w0 and cur = ?cur]
  have p1: "scan_window cfg0 (env_junk 2000) c0 2000 995 ?st0 =
     Continue \<lparr>st_db = db_at 1000, st_world = ?w2, lastGoodBlock = 1494\<rparr>"
    using t[where env = "env_junk 2000" and b = 995 and st = ?st0, THEN conjunct1, rule_format, OF a]
    by (simp add: pause_def cfg0_def)
  have b: "0 \<le> FLR_SCAN_BLOCKS cfg0
       \<and> scan_cursors (ensureCursor (datetime_now (env_quiet 2000) (length (getLogs_calls w0)))
            (db_at 1000) (cursorKey_of c0) (default_start_block c0)) (cursorKey_of c0) = Some ?cur
       \<and> getBlockNumber (env_quiet 2000) = Inr 2000
       \<and> resume_fromBlock cfg0 (start_block ?cur) (last_scanned_block ?cur) = 995
       \<and> loop_head cfg0 (env_quiet 2000) c0 2000 (Suc 0) 995
           \<lparr>st_db = ensureCursor (datetime_now (env_quiet 2000) (length (getLogs_calls w0)))
              (db_at 1000) (cursorKey_of c0) (default_start_block c0),
            st_world = w0, lastGoodBlock = 995 - 1\<rparr> =
           Some (1495, \<lparr>st_db = db_at 1000, st_world = ?w1, lastGoodBlock = 1494\<rparr>)
       \<and> scanLoanNftTransfers cfg0 (env_quiet 2000) c0 (db_at 1000, w0) =
           Some (Returns (db_after 2000,
             \<lparr>getLogs_calls = [window_filter cfg0 ''0xabc'' 2000 995,
                        window_filter cfg0 ''0xabc'' 2000 1495,
                        window_filter cfg0 ''0xabc'' 2000 1995],
              sleeps = [], getBlock_calls = []\<rparr>))"
    unfolding e using cur res quiet_run_head quiet_run_2000
    by (simp add: cfg0_def env_quiet_def)
  have p2: "\<exists>v. cursor_value (db_after 2000) (cursorKey_of c0) = Some v \<and> 1494 \<le> v"
    using t[where env = "env_quiet 2000" and k = 0, THEN conjunct2, THEN conjunct1, rule_format, OF b]
    by simp
  have c: "scan_cursors (ensureCursor (datetime_now env_refusing (length (getLogs_calls w0)))
            (db_at 1000) (cursorKey_of c0) (default_start_block c0)) (cursorKey_of c0) = Some ?cur
       \<and> getBlockNumber env_refusing = Inr 2000
       \<and> resume_fromBlock cfg0 (start_block ?cur) (last_scanned_block ?cur) = 995
       \<and> (995::int) \<le> 2000
       \<and> getAddress env_refusing (address c0) = Inr ''0xabc''
       \<and> getLogsWithRetry env_refusing (window_filter cfg0 ''0xabc'' 2000 995) 6 w0 =
           (Failed (Error ''invalid block range''), ?w1)"
    unfolding e using cur res
    by (simp add: env_refusing_def c0_def getLogsWithRetry_def getLogsWithRetry_loop.simps
        call_getLogs_def w0_def not_retry_invalid)
  have p3: "scanLoanNftTransfers cfg0 env_refusing c0 (db_at 1000, w0) =
       Some (Returns (db_at 1000, ?w1))"
    using t[where env = env_refusing, THEN conjunct2, THEN conjunct2, rule_format, OF c]
    unfolding e .
  show ?thesis using p1 p2 p3 by blast
qed

section \<open>Decoder: stable log index and dropped logs\<close>

lemma decodeTransfer_fails_guard: "fails_guard lg \<Longrightarrow> decodeTransfer env m lg = Skip"
  by (auto simp: fails_guard_def short_topics_def no_tx_hash_def decodeTransfer_def
      split: option.splits)

lemma decodeTransfer_wellformed:
  "\<not> fails_guard lg \<Longrightarrow> decodable env lg \<Longrightarrow> \<exists>ev. decodeTransfer env m lg = Emit ev"
  by (auto simp: fails_guard_def short_topics_def no_tx_hash_def decodable_def decodeTransfer_def
      split: option.splits sum.splits)

lemma decodeTransfers_count:
  "\<forall>lg \<in> set lgs. fails_guard lg \<or> decodable env lg \<Longrightarrow>
   \<exists>evs. decodeTransfers env m lgs = Inr evs
        \<and> length evs = length (filter (\<lambda>lg. \<not> fails_guard lg) lgs)"
proof (induction lgs)
  case Nil
  then show ?case by simp
next
  case (Cons lg lgs)
  then obtain evs where evs: "decodeTransfers env m lgs = Inr evs"
    "length evs = length (filter (\<lambda>lg. \<not> fails_guard lg) lgs)" by auto
  show ?case
  proof (cases "fails_guard lg")
    case True
    with evs decodeTransfer_fails_guard[OF True, of env m] show ?thesis by simp
  next
    case False
    with Cons.prems have "decodable env lg" by simp
    from decodeTransfer_wellformed[OF False this, of m] obtain ev
      where "decodeTransfer env m lg = Emit ev" by blast
    with evs False show ?thesis by simp
  qed
qed

lemma getStableLogIndex_secondary:
  assumes "nonNegInteger (index lg) = None"
  shows "getStableLogIndex lg =
          (case logIndex lg of
             JInt li \<Rightarrow> if 0 \<le> li then Some li else None
           | JString s \<Rightarrow>
               (case (if startsWith s ''0x'' then parseInt s 16 else parseInt s 10) of
                  Some n \<Rightarrow> if 0 \<le> n \<and> js_finite (nat n) then Some n else None
                | None \<Rightarrow> None)
           | _ \<Rightarrow> None)"
proof (cases "logIndex lg")
  case (JString s)
  show ?thesis
  proof (cases "if startsWith s ''0x'' then parseInt s 16 else parseInt s 10")
    case None
    with JString assms show ?thesis by (simp add: getStableLogIndex_def)
  next
    case (Some n)
    have "(js_finite (nat \<bar>n\<bar>) \<and> 0 \<le> n) = (0 \<le> n \<and> js_finite (nat n))" by auto
    with Some JString assms show ?thesis by (simp add: getStableLogIndex_def)
  qed
qed (use assms in \<open>simp_all add: getStableLogIndex_def nonNegInteger_def\<close>)

lemma getStableLogIndex_nonneg: "getStableLogIndex lg = Some n \<Longrightarrow> 0 \<le> n"
proof (cases "nonNegInteger (index lg)")
  case None
  assume a: "getStableLogIndex lg = Some n"
  show ?thesis
  proof (cases "logIndex lg")
    case (JString s)
    show ?thesis
    proof (cases "if startsWith s ''0x'' then parseInt s 16 else parseInt s 10")
      case None
      with a JString \<open>nonNegInteger (index lg) = None\<close> show ?thesis
        by (simp add: getStableLogIndex_secondary)
    next
      case (Some v)
      with a JString \<open>nonNegInteger (index lg) = None\<close> show ?thesis
        by (simp add: getStableLogIndex_secondary split: if_splits)
    qed
  qed (use a None in \<open>simp_all add: getStableLogIndex_secondary split: if_splits\<close>)
next
  case (Some i)
  assume "getStableLogIndex lg = Some n"
  with Some have "i = n" by (simp add: getStableLogIndex_def)
  with Some show ?thesis
    by (cases "index lg") (simp_all add: nonNegInteger_def split: if_splits)
qed

lemma filter_complement_length:
  "length (filter (\<lambda>x. \<not> P x) xs) = length xs - length (filter P xs)"
  using sum_length_filter_compl[of P xs] by simp

lemma decodeTransfer_Emit:
  assumes "decodeTransfer env m lg = Emit ev"
  shows "getStableLogIndex lg = Some (ev_logIndex ev) \<and> transactionHash lg = Some (txHash ev)
         \<and> ev_blockNumber ev = blockNumber lg \<and> \<not> fails_guard lg"
  using assms
  by (auto simp: decodeTransfer_def fails_guard_def short_topics_def no_tx_hash_def
      split: option.splits if_splits sum.splits)

lemma decodeTransfers_indices:
  "decodeTransfers env m lgs = Inr evs \<Longrightarrow>
   map (\<lambda>e. Some (ev_logIndex e)) evs = map getStableLogIndex (filter (\<lambda>l. \<not> fails_guard l) lgs)"
proof (induction lgs arbitrary: evs)
  case Nil
  then show ?case by simp
next
  case (Cons lg lgs)
  show ?case
  proof (cases "decodeTransfer env m lg")
    case Skip
    have "fails_guard lg"
    proof (rule ccontr)
      assume n: "\<not> fails_guard lg"
      then obtain ts li tx where "topics lg = Some ts" "\<not> length ts < 4"
        "getStableLogIndex lg = Some li" "transactionHash lg = Some tx" "tx \<noteq> []"
        by (auto simp: fails_guard_def short_topics_def no_tx_hash_def split: option.splits)
      with Skip show False
        by (auto simp: decodeTransfer_def split: sum.splits)
    qed
    with Skip Cons show ?thesis by simp
  next
    case (Raise e)
    with Cons.prems show ?thesis by simp
  next
    case (Emit ev)
    with Cons.prems obtain rest where rest: "decodeTransfers env m lgs = Inr rest"
      and evs: "evs = ev # rest" by (auto split: sum.splits)
    from decodeTransfer_Emit[OF Emit] Cons.IH[OF rest] evs show ?thesis by simp
  qed
qed

text \<open>
  What the decoder does with the logs it can handle. The stable log index of a log is its
  \<^verbatim>\<open>index\<close> when that is an integer not below zero; otherwise its \<^verbatim>\<open>logIndex\<close> when that
  is such an integer, or, when \<^verbatim>\<open>logIndex\<close> is a string, the integer parsed from it (in
  base 16 when the string begins with \<^verbatim>\<open>0x\<close>, in base 10 otherwise) if that is not below
  zero; otherwise there is none. A log without a stable index, and a transfer log with fewer
  than four topics, is skipped. An event carries the stable index, the transaction hash and
  the block number of its log. A batch that decodes yields the events of the logs that pass
  the guards, in order; it does decode when each of these logs is decodable, and then ten
  logs of which two fail a guard yield eight events.
\<close>

lemma stable_index_and_guards:
  "(index lg = JInt i \<and> 0 \<le> i \<longrightarrow> getStableLogIndex lg = Some i)
   \<and> (nonNegInteger (index lg) = None \<longrightarrow>
        getStableLogIndex lg =
          (case logIndex lg of
             JInt li \<Rightarrow> if 0 \<le> li then Some li else None
           | JString s \<Rightarrow>
               (case (if startsWith s ''0x'' then parseInt s 16 else parseInt s 10) of
                  Some n \<Rightarrow> if 0 \<le> n \<and> js_finite (nat n) then Some n else None
                | None \<Rightarrow> None)
           | _ \<Rightarrow> None))
   \<and> (getStableLogIndex lg = Some n \<longrightarrow> 0 \<le> n)
   \<and> (getStableLogIndex lg = None \<longrightarrow> decodeTransfer env m lg = Skip)
   \<and> (short_topics lg \<longrightarrow> decodeTransfer env m lg = Skip)
   \<and> ((\<forall>l \<in> set lgs. fails_guard l \<or> decodable env l) \<longrightarrow>
        (\<exists>evs. decodeTransfers env m lgs = Inr evs
           \<and> length evs = length (filter (\<lambda>l. \<not> fails_guard l) lgs)))
   \<and> ((\<forall>l \<in> set lgs. fails_guard l \<or> decodable env l) \<and> length lgs = 10
        \<and> length (filter fails_guard lgs) = 2 \<longrightarrow>
        (\<exists>evs. decodeTransfers env m lgs = Inr evs \<and> length evs = 8))
   \<and> (decodeTransfer env m lg = Emit ev \<longrightarrow>
        getStableLogIndex lg = Some (ev_logIndex ev) \<and> transactionHash lg = Some (txHash ev)
        \<and> ev_blockNumber ev = blockNumber lg)
   \<and> (decodeTransfers env m lgs = Inr evs \<longrightarrow>
        map (\<lambda>e. Some (ev_logIndex e)) evs =
          map getStableLogIndex (filter (\<lambda>l. \<not> fails_guard l) lgs))"
proof (intro conjI impI)
  assume "index lg = JInt i \<and> 0 \<le> i"
  then show "getStableLogIndex lg = Some i"
    by (simp add: getStableLogIndex_def nonNegInteger_def)
next
  assume "nonNegInteger (index lg) = None"
  then show "getStableLogIndex lg =
          (case logIndex lg of
             JInt li \<Rightarrow> if 0 \<le> li then Some li else None
           | JString s \<Rightarrow>
               (case (if startsWith s ''0x'' then parseInt s 16 else parseInt s 10) of
                  Some n \<Rightarrow> if 0 \<le> n \<and> js_finite (nat n) then Some n else None
                | None \<Rightarrow> None)
           | _ \<Rightarrow> None)"
    by (rule getStableLogIndex_secondary)
next
  assume "getStableLogIndex lg = Some n"
  then show "0 \<le> n" by (rule getStableLogIndex_nonneg)
next
  assume "getStableLogIndex lg = None"
  then show "decodeTransfer env m lg = Skip"
    by (simp add: decodeTransfer_fails_guard fails_guard_def)
next
  assume "short_topics lg"
  then show "decodeTransfer env m lg = Skip"
    by (simp add: decodeTransfer_fails_guard fails_guard_def)
next
  assume "\<forall>l \<in> set lgs. fails_guard l \<or> decodable env l"
  then show "\<exists>evs. decodeTransfers env m lgs = Inr evs
           \<and> length evs = length (filter (\<lambda>l. \<not> fails_guard l) lgs)"
    by (rule decodeTransfers_count)
next
  assume h: "(\<forall>l \<in> set lgs. fails_guard l \<or> decodable env l) \<and> length lgs = 10
        \<and> length (filter fails_guard lgs) = 2"
  then obtain evs where "decodeTransfers env m lgs = Inr evs"
    "length evs = length (filter (\<lambda>l. \<not> fails_guard l) lgs)"
    using decodeTransfers_count[of lgs env m] by blast
  moreover have "length (filter (\<lambda>l. \<not> fails_guard l) lgs) = 8"
    using h by (simp add: filter_complement_length)
  ultimately show "\<exists>evs. decodeTransfers env m lgs = Inr evs \<and> length evs = 8" by simp
next
  assume a: "decodeTransfer env m lg = Emit ev"
  from decodeTransfer_Emit[OF a] show "getStableLogIndex lg = Some (ev_logIndex ev)" by simp
  from decodeTransfer_Emit[OF a] show "transactionHash lg = Some (txHash ev)" by simp
  from decodeTransfer_Emit[OF a] show "ev_blockNumber ev = blockNumber lg" by simp
next
  assume "decodeTransfers env m lgs = Inr evs"
  then show "map (\<lambda>e. Some (ev_logIndex e)) evs =
          map getStableLogIndex (filter (\<lambda>l. \<not> fails_guard l) lgs)"
    by (rule decodeTransfers_indices)
qed

lemma stable_lg_ok: "0 \<le> n \<Longrightarrow> getStableLogIndex (lg_ok n) = Some n"
  by (simp add: getStableLogIndex_def nonNegInteger_def lg_ok_def)

lemma fails_guard_lg_ok: "0 \<le> n \<Longrightarrow> \<not> fails_guard (lg_ok n)"
  by (simp add: fails_guard_def stable_lg_ok) (simp add: short_topics_def no_tx_hash_def lg_ok_def)

lemma decodable_lg_ok: "decodable (env_quiet h) (lg_ok n)"
  by (simp add: decodable_def lg_ok_def addressFromTopic_def tokenIdFromTopic_def env_quiet_def)

lemma fails_guard_lg_short: "fails_guard lg_short"
  by (simp add: fails_guard_def short_topics_def lg_short_def)

lemma parse_minus5: "parseInt ''-5'' 10 = Some (- 5)"
  by (simp add: parseInt_def isSpace_def isRadixDigit_def digitValue_def lowerChar_def
      digitsValue_def upt_rec)

lemma parse_0x1f: "parseInt ''0x1f'' 16 = Some 31"
  by (simp add: parseInt_def isSpace_def isRadixDigit_def digitValue_def lowerChar_def
      digitsValue_def upt_rec)

lemma fails_guard_lg_noindex: "fails_guard lg_noindex"
  by (simp add: fails_guard_def getStableLogIndex_def nonNegInteger_def lg_noindex_def lg_ok_def
      parse_minus5)

lemma stable_index_and_guards_example:
  "getStableLogIndex (lg_ok 3) = Some 3
   \<and> getStableLogIndex ((lg_ok (- 1))\<lparr>logIndex := JString ''0x1f''\<rparr>) = Some 31
   \<and> getStableLogIndex lg_noindex = None
   \<and> decodeTransfer (env_quiet 2000) Map.empty lg_short = Skip
   \<and> (\<exists>evs. decodeTransfers (env_quiet 2000) Map.empty batch10 = Inr evs \<and> length evs = 8)"
proof -
  note t = stable_index_and_guards[where env = "env_quiet 2000" and m = Map.empty]
  have a: "index (lg_ok 3) = JInt 3 \<and> (0::int) \<le> 3" by (simp add: lg_ok_def)
  have p1: "getStableLogIndex (lg_ok 3) = Some 3"
    using t[where lg = "lg_ok 3" and i = 3, THEN conjunct1, rule_format, OF a] .
  have b: "nonNegInteger (index ((lg_ok (- 1))\<lparr>logIndex := JString ''0x1f''\<rparr>)) = None"
    by (simp add: nonNegInteger_def lg_ok_def)
  have p2: "getStableLogIndex ((lg_ok (- 1))\<lparr>logIndex := JString ''0x1f''\<rparr>) = Some 31"
    using t[where lg = "(lg_ok (- 1))\<lparr>logIndex := JString ''0x1f''\<rparr>",
        THEN conjunct2, THEN conjunct1, rule_format, OF b]
    by (simp add: parse_0x1f js_finite_def)
  have c: "nonNegInteger (index lg_noindex) = None"
    by (simp add: nonNegInteger_def lg_noindex_def lg_ok_def)
  have p3: "getStableLogIndex lg_noindex = None"
    using t[where lg = lg_noindex, THEN conjunct2, THEN conjunct1, rule_format, OF c]
    by (simp add: lg_noindex_def parse_minus5)
  have d: "short_topics lg_short" by (simp add: short_topics_def lg_short_def)
  have p4: "decodeTransfer (env_quiet 2000) Map.empty lg_short = Skip"
    using t[where lg = lg_short, THEN conjunct2, THEN conjunct2, THEN conjunct2, THEN conjunct2,
        THEN conjunct1, rule_format, OF d] .
  have e: "(\<forall>l \<in> set batch10. fails_guard l \<or> decodable (env_quiet 2000) l) \<and> length batch10 = 10
        \<and> length (filter fails_guard batch10) = 2"
    by (simp add: batch10_def fails_guard_lg_ok fails_guard_lg_short fails_guard_lg_noindex
        decodable_lg_ok)
  have p5: "\<exists>evs. decodeTransfers (env_quiet 2000) Map.empty batch10 = Inr evs \<and> length evs = 8"
    using t[where lgs = batch10, THEN conjunct2, THEN conjunct2, THEN conjunct2, THEN conjunct2,
        THEN conjunct2, THEN conjunct2, THEN conjunct1, rule_format, OF e] .
  show ?thesis using p1 p2 p3 p4 p5 by blast
qed


section \<open>Timestamp resolver\<close>

lemma uniqueBlocks_fold:
  "distinct seen \<Longrightarrow>
   distinct (fold (\<lambda>lg seen. if blockNumber lg \<in> set seen then seen else seen @ [blockNumber lg]) lgs seen)
   \<and> set (fold (\<lambda>lg seen. if blockNumber lg \<in> set seen then seen else seen @ [blockNumber lg]) lgs seen)
       = set seen \<union> blockNumber ` set lgs"
  by (induction lgs arbitrary: seen) auto

lemma uniqueBlocks_distinct: "distinct (uniqueBlocks lgs)"
  using uniqueBlocks_fold[of "[]" lgs] by (simp add: uniqueBlocks_def)

lemma uniqueBlocks_set: "set (uniqueBlocks lgs) = blockNumber ` set lgs"
  using uniqueBlocks_fold[of "[]" lgs] by (simp add: uniqueBlocks_def)

lemma rejections_Nil:
  "rejections (map (\<lambda>bn. (bn, g bn)) bs) = [] \<longleftrightarrow> (\<forall>bn \<in> set bs. \<forall>e. g bn \<noteq> BlockThrows e)"
  by (induction bs) (auto simp: rejections_def split: block_result.splits)

lemma fold_set_timestamp:
  "fold set_timestamp (map (\<lambda>bn. (bn, g bn)) bs) m0 bn =
     (if bn \<in> set bs then (case g bn of Block (Some ts) \<Rightarrow> Some ts | _ \<Rightarrow> m0 bn) else m0 bn)"
proof (induction bs arbitrary: m0)
  case Nil
  then show ?case by simp
next
  case (Cons a bs)
  show ?case
    by (simp add: Cons.IH) (auto simp: set_timestamp_def split: block_result.splits option.splits)
qed

lemma resolve_world:
  "snd (resolveBlockTimestamps env lgs w) = w\<lparr>getBlock_calls := getBlock_calls w @ uniqueBlocks lgs\<rparr>"
  by (simp add: resolveBlockTimestamps_def Let_def split: list.splits)

lemma resolve_map:
  assumes "\<forall>bn \<in> blockNumber ` set lgs. \<forall>e. getBlock env (length (getLogs_calls w)) bn \<noteq> BlockThrows e"
  shows "fst (resolveBlockTimestamps env lgs w) =
           Inr (\<lambda>bn. if bn \<in> blockNumber ` set lgs
                      then (case getBlock env (length (getLogs_calls w)) bn of
                              Block (Some ts) \<Rightarrow> Some ts | _ \<Rightarrow> None)
                      else None)"
proof -
  let ?g = "getBlock env (length (getLogs_calls w))"
  have "rejections (map (\<lambda>bn. (bn, ?g bn)) (uniqueBlocks lgs)) = []"
    using assms by (simp add: rejections_Nil uniqueBlocks_set)
  moreover have "fold set_timestamp (map (\<lambda>bn. (bn, ?g bn)) (uniqueBlocks lgs)) Map.empty =
      (\<lambda>bn. if bn \<in> blockNumber ` set lgs
             then (case ?g bn of Block (Some ts) \<Rightarrow> Some ts | _ \<Rightarrow> None) else None)"
    by (rule ext) (simp add: fold_set_timestamp uniqueBlocks_set)
  ultimately show ?thesis by (simp add: resolveBlockTimestamps_def Let_def)
qed

lemma decodeTransfer_timestamp:
  "decodeTransfer env m lg = Emit ev \<Longrightarrow>
   blockTimestamp ev = m (ev_blockNumber ev) \<and> ev_blockNumber ev = blockNumber lg"
  by (auto simp: decodeTransfer_def split: option.splits if_splits sum.splits)

lemma decodeTransfers_timestamp:
  "decodeTransfers env m lgs = Inr evs \<Longrightarrow> ev \<in> set evs \<Longrightarrow>
   blockTimestamp ev = m (ev_blockNumber ev) \<and> ev_blockNumber ev \<in> blockNumber ` set lgs"
proof (induction lgs arbitrary: evs)
  case Nil
  then show ?case by simp
next
  case (Cons lg lgs)
  show ?case
  proof (cases "decodeTransfer env m lg")
    case Skip
    with Cons show ?thesis by auto
  next
    case (Raise e)
    with Cons.prems show ?thesis by simp
  next
    case (Emit e1)
    with Cons.prems(1) obtain rest where rest: "decodeTransfers env m lgs = Inr rest"
      and evs: "evs = e1 # rest" by (auto split: sum.splits)
    show ?thesis
    proof (cases "ev = e1")
      case True
      with decodeTransfer_timestamp[OF Emit] show ?thesis by simp
    next
      case False
      with Cons.prems(2) evs have "ev \<in> set rest" by simp
      from Cons.IH[OF rest this] show ?thesis by simp
    qed
  qed
qed

text \<open>
  Claim C9 as stated fails for a lookup that rejects: nothing catches the rejection, so the
  resolver returns no map, the iteration throws, and the run ends with the error, the log
  of the batch not stored.
\<close>

theorem failed_lookup_aborts:
  "resolveBlockTimestamps env_block_fails [lg_ok 0] w0 =
     (Inl (Error ''timeout''), \<lparr>getLogs_calls = [], sleeps = [], getBlock_calls = [1000]\<rparr>)
   \<and> scanLoanNftTransfers cfg0 env_block_fails c0 (db_at 1000, w0) =
       Some (Throws (Error ''timeout'')
         (db_at 1000,
          \<lparr>getLogs_calls = [window_filter cfg0 ''0xabc'' 1200 995], sleeps = [],
           getBlock_calls = [1000]\<rparr>))"
proof (intro conjI)
  show "resolveBlockTimestamps env_block_fails [lg_ok 0] w0 =
     (Inl (Error ''timeout''), \<lparr>getLogs_calls = [], sleeps = [], getBlock_calls = [1000]\<rparr>)"
    by (simp add: resolveBlockTimestamps_def uniqueBlocks_def rejections_def env_block_fails_def
        lg_ok_def w0_def)
next
  show "scanLoanNftTransfers cfg0 env_block_fails c0 (db_at 1000, w0) =
       Some (Throws (Error ''timeout'')
         (db_at 1000,
          \<lparr>getLogs_calls = [window_filter cfg0 ''0xabc'' 1200 995], sleeps = [],
           getBlock_calls = [1000]\<rparr>))"
    by (simp add: scanLoanNftTransfers_def ensureCursor_def db_at_def env_block_fails_def cfg0_def
        resume_fromBlock_def scan_loop.simps scan_window_def getLogsWithRetry_def
        getLogsWithRetry_loop.simps call_getLogs_def w0_def c0_def resolveBlockTimestamps_def
        uniqueBlocks_def rejections_def lg_ok_def window_filter_def Let_def)
qed

text \<open>
  Claim C9, as amended. The resolver looks up the block numbers of the batch, each once and
  no other block. When none of these lookups rejects, it returns a map that holds exactly
  the blocks of the batch whose lookup returned a block with an integer timestamp: a block
  that was not found, or whose timestamp is not an integer, is absent. A decoded event
  carries the entry of the map for its block, \<open>None\<close> when the block is absent, and the
  row inserted for it stores that value, \<open>None\<close> being \<^verbatim>\<open>NULL\<close>.
\<close>

theorem timestamps_resolved:
  "snd (resolveBlockTimestamps env lgs w) =
     w\<lparr>getBlock_calls := getBlock_calls w @ uniqueBlocks lgs\<rparr>
   \<and> distinct (uniqueBlocks lgs) \<and> set (uniqueBlocks lgs) = blockNumber ` set lgs
   \<and> ((\<forall>bn \<in> blockNumber ` set lgs. \<forall>e.
          getBlock env (length (getLogs_calls w)) bn \<noteq> BlockThrows e) \<longrightarrow>
        (\<exists>tsMap. fst (resolveBlockTimestamps env lgs w) = Inr tsMap
           \<and> dom tsMap \<subseteq> blockNumber ` set lgs
           \<and> (\<forall>bn ts. tsMap bn = Some ts \<longleftrightarrow>
                 bn \<in> blockNumber ` set lgs
                 \<and> getBlock env (length (getLogs_calls w)) bn = Block (Some ts))))
   \<and> (decodeTransfers env m lgs = Inr evs \<and> ev \<in> set evs \<longrightarrow>
        blockTimestamp ev = m (ev_blockNumber ev))
   \<and> (r \<in> set (insertTransfer now k ev rows) \<and> r \<notin> set rows \<longrightarrow>
        block_number r = ev_blockNumber ev \<and> block_timestamp r = blockTimestamp ev)"
proof (intro conjI impI)
  show "snd (resolveBlockTimestamps env lgs w) =
     w\<lparr>getBlock_calls := getBlock_calls w @ uniqueBlocks lgs\<rparr>"
    by (rule resolve_world)
  show "distinct (uniqueBlocks lgs)" by (rule uniqueBlocks_distinct)
  show "set (uniqueBlocks lgs) = blockNumber ` set lgs" by (rule uniqueBlocks_set)
next
  let ?g = "getBlock env (length (getLogs_calls w))"
  let ?m = "\<lambda>bn. if bn \<in> blockNumber ` set lgs
                      then (case ?g bn of Block (Some ts) \<Rightarrow> Some ts | _ \<Rightarrow> None)
                      else None"
  assume "\<forall>bn \<in> blockNumber ` set lgs. \<forall>e. ?g bn \<noteq> BlockThrows e"
  then have m: "fst (resolveBlockTimestamps env lgs w) = Inr ?m" by (rule resolve_map)
  have d: "dom ?m \<subseteq> blockNumber ` set lgs"
    by (auto simp: dom_def split: if_splits)
  have c: "?m bn = Some ts \<longleftrightarrow> bn \<in> blockNumber ` set lgs \<and> ?g bn = Block (Some ts)" for bn ts
    by (auto split: block_result.splits option.splits)
  show "\<exists>tsMap. fst (resolveBlockTimestamps env lgs w) = Inr tsMap
           \<and> dom tsMap \<subseteq> blockNumber ` set lgs
           \<and> (\<forall>bn ts. tsMap bn = Some ts \<longleftrightarrow>
                 bn \<in> blockNumber ` set lgs \<and> ?g bn = Block (Some ts))"
    using m d c by (intro exI[of _ ?m]) blast
next
  assume "decodeTransfers env m lgs = Inr evs \<and> ev \<in> set evs"
  then show "blockTimestamp ev = m (ev_blockNumber ev)"
    using decodeTransfers_timestamp by blast
next
  assume a: "r \<in> set (insertTransfer now k ev rows) \<and> r \<notin> set rows"
  then show "block_number r = ev_blockNumber ev"
    by (auto simp: insertTransfer_def split: if_splits)
  from a show "block_timestamp r = blockTimestamp ev"
    by (auto simp: insertTransfer_def split: if_splits)
qed

theorem timestamps_resolved_witness:
  "getBlock_calls (snd (resolveBlockTimestamps (env_quiet 2000) [lg_ok 0, lg_ok 1] w0)) = [1000]
   \<and> (\<exists>tsMap. fst (resolveBlockTimestamps (env_quiet 2000) [lg_ok 0, lg_ok 1] w0) = Inr tsMap
         \<and> tsMap 1000 = None)
   \<and> (\<exists>tsMap. fst (resolveBlockTimestamps (env_junk 2000) [lg_ok 0] w0) = Inr tsMap
         \<and> tsMap 1000 = Some 1700000000)"
proof -
  have u: "uniqueBlocks [lg_ok 0, lg_ok 1] = [1000]"
    by (simp add: uniqueBlocks_def lg_ok_def)
  have p1: "getBlock_calls (snd (resolveBlockTimestamps (env_quiet 2000) [lg_ok 0, lg_ok 1] w0)) = [1000]"
    using timestamps_resolved[where env = "env_quiet 2000" and lgs = "[lg_ok 0, lg_ok 1]" and w = w0,
        THEN conjunct1]
    by (simp add: u w0_def)
  have h2: "\<forall>bn \<in> blockNumber ` set [lg_ok 0, lg_ok 1]. \<forall>e.
          getBlock (env_quiet 2000) (length (getLogs_calls w0)) bn \<noteq> BlockThrows e"
    by (simp add: env_quiet_def)
  from timestamps_resolved[where env = "env_quiet 2000" and lgs = "[lg_ok 0, lg_ok 1]" and w = w0,
        THEN conjunct2, THEN conjunct2, THEN conjunct2, THEN conjunct1, THEN mp, OF h2]
  obtain tsMap where t: "fst (resolveBlockTimestamps (env_quiet 2000) [lg_ok 0, lg_ok 1] w0) = Inr tsMap"
    and c: "\<forall>bn ts. tsMap bn = Some ts \<longleftrightarrow>
                 bn \<in> blockNumber ` set [lg_ok 0, lg_ok 1]
                 \<and> getBlock (env_quiet 2000) (length (getLogs_calls w0)) bn = Block (Some ts)"
    by blast
  have "tsMap 1000 = None"
  proof (cases "tsMap 1000")
    case (Some ts)
    with c have "getBlock (env_quiet 2000) (length (getLogs_calls w0)) 1000 = Block (Some ts)"
      by blast
    then show ?thesis by (simp add: env_quiet_def)
  qed simp
  with t have p2: "\<exists>tsMap. fst (resolveBlockTimestamps (env_quiet 2000) [lg_ok 0, lg_ok 1] w0) = Inr tsMap
         \<and> tsMap 1000 = None" by blast
  have h3: "\<forall>bn \<in> blockNumber ` set [lg_ok 0]. \<forall>e.
          getBlock (env_junk 2000) (length (getLogs_calls w0)) bn \<noteq> BlockThrows e"
    by (simp add: env_junk_def)
  from timestamps_resolved[where env = "env_junk 2000" and lgs = "[lg_ok 0]" and w = w0,
        THEN conjunct2, THEN conjunct2, THEN conjunct2, THEN conjunct1, THEN mp, OF h3]
  obtain tsMap' where t': "fst (resolveBlockTimestamps (env_junk 2000) [lg_ok 0] w0) = Inr tsMap'"
    and c': "\<forall>bn ts. tsMap' bn = Some ts \<longleftrightarrow>
                 bn \<in> blockNumber ` set [lg_ok 0]
                 \<and> getBlock (env_junk 2000) (length (getLogs_calls w0)) bn = Block (Some ts)"
    by blast
  have "tsMap' 1000 = Some 1700000000"
    using c' by (simp add: env_junk_def lg_ok_def)
  with t' have p3: "\<exists>tsMap. fst (resolveBlockTimestamps (env_junk 2000) [lg_ok 0] w0) = Inr tsMap
         \<and> tsMap 1000 = Some 1700000000" by blast
  show ?thesis using p1 p2 p3 by blast
qed

end
